theory Spec2Isabelle
  imports Main "HOL-Library.Multiset"
begin

section \<open>Time values and the Date getters\<close>

text \<open>
  A JavaScript \<^verbatim>\<open>Date\<close> holds a time value: the integer number of milliseconds since
  1970-01-01T00:00:00Z. The getters the dashboard calls are functions of that number, as
  ECMAScript defines them: \<^verbatim>\<open>Day(t) = floor(t / 86400000)\<close>,
  \<^verbatim>\<open>HourFromTime(t) = floor(t / 3600000) modulo 24\<close>, and so on, with a non-negative
  modulo. On \<open>int\<close>, \<open>div\<close> rounds down and \<open>mod\<close> by a positive number is non-negative,
  so the definitions below are those formulas. Time values outside the range of
  \<^verbatim>\<open>Date\<close> (more than 8.64e15 ms from the epoch) give an invalid date in JavaScript and
  are outside this model, except in the day-number adapter, where the range is checked.
\<close>

definition msPerDay :: int where
  "msPerDay = 86400000"

definition utcDayNumber :: "int \<Rightarrow> int" where
  "utcDayNumber t = t div msPerDay"

definition getUTCHours :: "int \<Rightarrow> int" where
  "getUTCHours t = (t div 3600000) mod 24"

definition getUTCMinutes :: "int \<Rightarrow> int" where
  "getUTCMinutes t = (t div 60000) mod 60"

definition getUTCSeconds :: "int \<Rightarrow> int" where
  "getUTCSeconds t = (t div 1000) mod 60"

definition getUTCDay :: "int \<Rightarrow> int" where
  "getUTCDay t = (utcDayNumber t + 4) mod 7"

text \<open>
  The source builds the key of a day as the string
  \<^verbatim>\<open>`${getUTCFullYear()}-${month, 2 digits}-${date, 2 digits}`\<close>. Year, month and date
  are the civil date of \<^verbatim>\<open>Day(t)\<close>, and the string determines them (month and date have
  a fixed width at the end of the string), so two time values have the same key exactly
  when they have the same day number. The model uses the day number as the key.
\<close>

definition dateKey :: "int \<Rightarrow> int" where
  "dateKey t = utcDayNumber t"

text \<open>
  For weekly data the source moves a copy of the date back by \<^verbatim>\<open>getUTCDay()\<close> days
  (\<^verbatim>\<open>setUTCDate(getUTCDate() - day)\<close>), clears the time of day and takes the date part
  of \<^verbatim>\<open>toISOString()\<close>: the civil date of the Sunday on or before the day, given here by
  its day number.
\<close>

definition weekStartKey :: "int \<Rightarrow> int" where
  "weekStartKey t = utcDayNumber t - getUTCDay t"

section \<open>Data points\<close>

text \<open>
  The \<^verbatim>\<open>timestamp\<close> field of a point is either a number of milliseconds or the string
  that \<^verbatim>\<open>toISOString()\<close> gives for a time value (the adapters of the dashboard store
  such strings). \<open>Num n\<close> is the number \<open>n\<close>; \<open>Iso n\<close> is the ISO string of the time value
  \<open>n\<close>. Both convert with \<^verbatim>\<open>new Date(...)\<close> to the time value \<open>n\<close>. Two timestamps are
  equal under \<^verbatim>\<open>===\<close> exactly when they are equal here: a number never equals a string,
  and \<^verbatim>\<open>toISOString()\<close> is one-to-one. Strings of other shapes, fractional numbers and
  \<^verbatim>\<open>Date\<close> objects as timestamps are not modelled.
\<close>

datatype jsTime = Num int | Iso int

fun timeValue :: "jsTime \<Rightarrow> int" where
  "timeValue (Num n) = n"
| "timeValue (Iso n) = n"

text \<open>JavaScript truthiness: the number 0 is falsy, a non-empty string is truthy.\<close>

fun truthy :: "jsTime \<Rightarrow> bool" where
  "truthy (Num n) = (n \<noteq> 0)"
| "truthy (Iso n) = True"

text \<open>
  The \<^verbatim>\<open>count\<close> of a point is a number, or it is \<^verbatim>\<open>null\<close> or \<^verbatim>\<open>undefined\<close>
  (\<open>None\<close>: no number).
\<close>

record dataPoint =
  timestamp :: jsTime
  count :: "int option"

text \<open>
  An element of the array given to the reconciliation: \<^verbatim>\<open>null\<close> or \<^verbatim>\<open>undefined\<close>
  (\<open>Missing\<close>), an object whose \<^verbatim>\<open>timestamp\<close> is \<^verbatim>\<open>undefined\<close>, \<^verbatim>\<open>null\<close> or the
  empty string (\<open>Untimed\<close>, with its count), or an object with a timestamp.
\<close>

datatype item = Missing | Untimed "int option" | Point dataPoint

abbreviation timeOf :: "dataPoint \<Rightarrow> int" where
  "timeOf p \<equiv> timeValue (timestamp p)"

section \<open>Reconciliation: removeDuplicateDates\<close>

text \<open>The first \<^verbatim>\<open>forEach\<close>: skip falsy elements, split the rest into today and other.\<close>

fun partitionStep ::
  "int \<Rightarrow> dataPoint list \<times> dataPoint list \<Rightarrow> item \<Rightarrow> dataPoint list \<times> dataPoint list" where
  "partitionStep todayUTC (todayEntries, otherEntries) Missing = (todayEntries, otherEntries)"
| "partitionStep todayUTC (todayEntries, otherEntries) (Untimed c) = (todayEntries, otherEntries)"
| "partitionStep todayUTC (todayEntries, otherEntries) (Point p) =
     (if \<not> truthy (timestamp p) then (todayEntries, otherEntries)
      else if dateKey (timeOf p) = todayUTC then (todayEntries @ [p], otherEntries)
      else (todayEntries, otherEntries @ [p]))"

definition isMidnight :: "int \<Rightarrow> bool" where
  "isMidnight t \<longleftrightarrow> getUTCHours t = 0 \<and> getUTCMinutes t = 0 \<and> getUTCSeconds t = 0"

text \<open>The second \<^verbatim>\<open>forEach\<close>, over today's entries; the state is (earliestToday, latestToday).\<close>

fun todayStep ::
  "dataPoint option \<times> dataPoint option \<Rightarrow> dataPoint \<Rightarrow> dataPoint option \<times> dataPoint option" where
  "todayStep (earliestToday, latestToday) p =
     (if isMidnight (timeOf p) then (Some p, latestToday)
      else (case latestToday of
              None \<Rightarrow> (earliestToday, Some p)
            | Some l \<Rightarrow> if timeOf p > timeOf l then (earliestToday, Some p)
                        else (earliestToday, latestToday)))"

text \<open>
  The \<^verbatim>\<open>Map\<close> called \<^verbatim>\<open>seen\<close>: an association list in insertion order. Setting a key that
  is present replaces the value in place, setting a new key appends, as \<^verbatim>\<open>Map.set\<close> does;
  \<^verbatim>\<open>seen.values()\<close> is the list of values in that order.
\<close>

type_synonym seenMap = "(int \<times> dataPoint) list"

fun mapSet :: "seenMap \<Rightarrow> int \<Rightarrow> dataPoint \<Rightarrow> seenMap" where
  "mapSet [] k v = [(k, v)]"
| "mapSet ((k', v') # m) k v = (if k' = k then (k, v) # m else (k', v') # mapSet m k v)"

definition bucketKey :: "bool \<Rightarrow> dataPoint \<Rightarrow> int" where
  "bucketKey isWeekly p = (if isWeekly then weekStartKey (timeOf p) else dateKey (timeOf p))"

text \<open>The third \<^verbatim>\<open>forEach\<close>, over the other entries.\<close>

definition otherStep :: "bool \<Rightarrow> seenMap \<Rightarrow> dataPoint \<Rightarrow> seenMap" where
  "otherStep isWeekly seen p =
     (let key = bucketKey isWeekly p in
      case map_of seen key of
        None \<Rightarrow> mapSet seen key p
      | Some old \<Rightarrow> if timeOf p > timeOf old then mapSet seen key p else seen)"

fun pushIf :: "dataPoint option \<Rightarrow> dataPoint list" where
  "pushIf None = []"
| "pushIf (Some p) = [p]"

text \<open>
  The function itself. \<open>now\<close> is the time value of \<^verbatim>\<open>new Date()\<close>; \<open>None\<close> is a
  \<^verbatim>\<open>null\<close> or \<^verbatim>\<open>undefined\<close> argument. \<^verbatim>\<open>Array.prototype.sort\<close> is stable and the
  comparator is the difference of the time values, so the last step is the stable sort by
  time value.
\<close>

definition removeDuplicateDates :: "int \<Rightarrow> item list option \<Rightarrow> bool \<Rightarrow> dataPoint list" where
  "removeDuplicateDates now data isWeekly =
     (case data of
        None \<Rightarrow> []
      | Some xs \<Rightarrow>
          if length xs = 0 then []
          else
            (let todayUTC = dateKey now;
                 (todayEntries, otherEntries) = foldl (partitionStep todayUTC) ([], []) xs;
                 (earliestToday, latestToday) = foldl todayStep (None, None) todayEntries;
                 seen = foldl (otherStep isWeekly) [] otherEntries;
                 result = map snd seen @ pushIf earliestToday @ pushIf latestToday
             in sort_key timeOf result))"

section \<open>Response cache\<close>

text \<open>
  \<^verbatim>\<open>responseCache\<close> is a \<^verbatim>\<open>Map\<close> from a key to \<^verbatim>\<open>{ data, timestamp }\<close>, where
  \<^verbatim>\<open>timestamp\<close> is the value of \<^verbatim>\<open>Date.now()\<close> when the entry was stored.
\<close>

record 'v cacheEntry =
  entryData :: 'v
  entryTimestamp :: int

type_synonym ('k, 'v) responseCache = "'k \<Rightarrow> 'v cacheEntry option"

text \<open>
  Every fetch function starts with the same block, with its own key and time to live:
  \<^verbatim>\<open>if (responseCache.has(key)) { const { data, timestamp } = responseCache.get(key);
  if (Date.now() - timestamp < ttl) return data; }\<close>. \<open>None\<close> means the function goes on
  to fetch.
\<close>

definition cacheLookup :: "('k, 'v) responseCache \<Rightarrow> 'k \<Rightarrow> int \<Rightarrow> int \<Rightarrow> 'v option" where
  "cacheLookup cache key ttl now =
     (case cache key of
        None \<Rightarrow> None
      | Some e \<Rightarrow> if now - entryTimestamp e < ttl then Some (entryData e) else None)"

text \<open>\<^verbatim>\<open>responseCache.set(key, { data, timestamp: Date.now() })\<close>\<close>

definition cacheStore :: "('k, 'v) responseCache \<Rightarrow> 'k \<Rightarrow> 'v \<Rightarrow> int \<Rightarrow> ('k, 'v) responseCache" where
  "cacheStore cache key d now = cache(key \<mapsto> \<lparr>entryData = d, entryTimestamp = now\<rparr>)"

text \<open>\<^verbatim>\<open>clearCache\<close>\<close>

definition clearCache :: "('k, 'v) responseCache \<Rightarrow> ('k, 'v) responseCache" where
  "clearCache cache = Map.empty"

datatype thrown =
    TransportError
  | NetworkError nat
  | JsonError
  | QueryError
  | TypeError

text \<open>\<^verbatim>\<open>response.ok\<close>: the status is in the range 200 to 299.\<close>

definition responseOk :: "nat \<Rightarrow> bool" where
  "responseOk status \<longleftrightarrow> 200 \<le> status \<and> status \<le> 299"

text \<open>
  What the network does to one request: \<^verbatim>\<open>fetch\<close> rejects, or it resolves to a response
  with a status and a body, where \<open>None\<close> is a body that \<^verbatim>\<open>response.json()\<close> rejects.
\<close>

datatype 'b httpReply = FetchRejected | Response nat "'b option"

text \<open>
  \<^verbatim>\<open>fetchNetworkInfo\<close>. \<open>now\<close> is \<^verbatim>\<open>Date.now()\<close> at the cache check, \<open>later\<close> at the
  store. The result is the returned data or the rethrown error, with the cache afterwards.
\<close>

definition fetchNetworkInfo ::
  "(string, 'v) responseCache \<Rightarrow> int \<Rightarrow> 'v httpReply \<Rightarrow> int
     \<Rightarrow> (thrown + 'v) \<times> (string, 'v) responseCache" where
  "fetchNetworkInfo cache now reply later =
     (let cacheKey = ''network-info'' in
      case cacheLookup cache cacheKey (5 * 60 * 1000) now of
        Some d \<Rightarrow> (Inr d, cache)
      | None \<Rightarrow>
          (case reply of
             FetchRejected \<Rightarrow> (Inl TransportError, cache)
           | Response status body \<Rightarrow>
               if \<not> responseOk status then (Inl (NetworkError status), cache)
               else (case body of
                       None \<Rightarrow> (Inl JsonError, cache)
                     | Some d \<Rightarrow> (Inr d, cacheStore cache cacheKey d later))))"

section \<open>Chunked batch fetch: fetchProcessData\<close>

text \<open>A period: two block heights and the timestamp its point gets.\<close>

record period =
  startHeight :: nat
  endHeight :: nat
  endTime :: jsTime

text \<open>
  The body of a GraphQL response after \<^verbatim>\<open>response.json()\<close>, by what the code reads of
  it. \<open>WithErrors\<close>: \<^verbatim>\<open>result.errors\<close> is truthy. Otherwise the code evaluates
  \<^verbatim>\<open>result.data.transactions.count\<close>. \<open>WithCount c\<close>: that is the number \<open>c\<close>.
  \<open>WithoutCount\<close>: \<^verbatim>\<open>result.data.transactions\<close> is an object without a \<^verbatim>\<open>count\<close>, so
  the expression is \<^verbatim>\<open>undefined\<close> and nothing is thrown. \<open>WithoutTransactions\<close>:
  \<^verbatim>\<open>result\<close> is \<^verbatim>\<open>null\<close>, or \<^verbatim>\<open>result.data\<close> or \<^verbatim>\<open>result.data.transactions\<close> is
  missing, so reading the property throws a \<^verbatim>\<open>TypeError\<close>.
\<close>

datatype gqlResult = WithErrors | WithCount int | WithoutCount | WithoutTransactions

text \<open>One sub-request: \<^verbatim>\<open>generateQuery\<close> rejects, or the request gets an HTTP reply.\<close>

datatype subReply = QueryRejected | Http "gqlResult httpReply"

datatype logLine =
    GraphQLErrorsLog string
  | PeriodErrorLog string nat thrown

text \<open>The \<^verbatim>\<open>try\<close> block of one sub-request: what it throws, or the point and what it logs.\<close>

fun tryPeriod :: "string \<Rightarrow> period \<Rightarrow> subReply \<Rightarrow> thrown + (dataPoint \<times> logLine list)" where
  "tryPeriod processName p QueryRejected = Inl QueryError"
| "tryPeriod processName p (Http FetchRejected) = Inl TransportError"
| "tryPeriod processName p (Http (Response status body)) =
     (if \<not> responseOk status then Inl (NetworkError status)
      else (case body of
              None \<Rightarrow> Inl JsonError
            | Some WithErrors \<Rightarrow>
                Inr (\<lparr>timestamp = endTime p, count = Some 0\<rparr>, [GraphQLErrorsLog processName])
            | Some (WithCount c) \<Rightarrow> Inr (\<lparr>timestamp = endTime p, count = Some c\<rparr>, [])
            | Some WithoutCount \<Rightarrow> Inr (\<lparr>timestamp = endTime p, count = None\<rparr>, [])
            | Some WithoutTransactions \<Rightarrow> Inl TypeError))"

text \<open>The sub-request with its \<^verbatim>\<open>catch\<close>; \<open>n\<close> is \<^verbatim>\<open>i + index\<close>.\<close>

definition fetchPeriod :: "string \<Rightarrow> nat \<Rightarrow> period \<Rightarrow> subReply \<Rightarrow> dataPoint \<times> logLine list" where
  "fetchPeriod processName n p reply =
     (case tryPeriod processName p reply of
        Inr r \<Rightarrow> r
      | Inl error \<Rightarrow> (\<lparr>timestamp = endTime p, count = Some 0\<rparr>, [PeriodErrorLog processName n error]))"

definition CHUNK_SIZE :: nat where
  "CHUNK_SIZE = 5"

text \<open>\<^verbatim>\<open>periods.slice(i, j)\<close> for \<open>i \<le> j\<close>.\<close>

definition slice :: "'a list \<Rightarrow> nat \<Rightarrow> nat \<Rightarrow> 'a list" where
  "slice xs i j = take (j - i) (drop i xs)"

text \<open>
  What the loop does that can be seen from outside: a chunk is submitted (its requests
  start together, \<^verbatim>\<open>Promise.all\<close> waits for all of them), or the loop waits for a number
  of milliseconds.
\<close>

datatype event = Submit "period list" | Delay nat

record fetchRun =
  results :: "dataPoint list"
  events :: "event list"
  logs :: "logLine list"

text \<open>
  The \<^verbatim>\<open>for\<close> loop. \<open>net n\<close> is what the network does to the request of period number
  \<open>n\<close>. \<^verbatim>\<open>Promise.all\<close> gives the results in the order of the chunk. The log lines of a
  chunk are listed in the order of its periods; the requests of a chunk run concurrently,
  so only which lines are logged is meant, not their order within a chunk.
\<close>

function fetchChunks ::
  "(nat \<Rightarrow> subReply) \<Rightarrow> string \<Rightarrow> period list \<Rightarrow> nat \<Rightarrow> fetchRun \<Rightarrow> fetchRun" where
  "fetchChunks net processName periods i run =
     (if i < length periods then
        (let chunk = slice periods i (i + CHUNK_SIZE);
             chunkResults =
               map (\<lambda>(index, p). fetchPeriod processName (i + index) p (net (i + index)))
                 (enumerate 0 chunk)
         in fetchChunks net processName periods (i + CHUNK_SIZE)
              \<lparr>results = results run @ map fst chunkResults,
               events = events run @ [Submit chunk]
                  @ (if i + CHUNK_SIZE < length periods then [Delay 100] else []),
               logs = logs run @ concat (map snd chunkResults)\<rparr>)
      else run)"
  by pat_completeness auto
termination
  by (relation "measure (\<lambda>(net, processName, periods, i, run). length periods - i)")
     (auto simp: CHUNK_SIZE_def)

text \<open>
  The cache key is the string
  \<^verbatim>\<open>`${processName}-${JSON.stringify(periods.map(p => p.startHeight + '-' + p.endHeight))}`\<close>.
\<close>

fun showNat :: "nat \<Rightarrow> string" where
  "showNat n =
     (if n < 10 then [''0123456789'' ! n]
      else showNat (n div 10) @ [''0123456789'' ! (n mod 10)])"

fun joinComma :: "string list \<Rightarrow> string" where
  "joinComma [] = []"
| "joinComma [s] = s"
| "joinComma (s # t # ss) = s @ '','' @ joinComma (t # ss)"

definition processCacheKey :: "string \<Rightarrow> period list \<Rightarrow> string" where
  "processCacheKey processName periods =
     processName @ ''-'' @ ''['' @
       joinComma (map (\<lambda>p. [CHR 0x22] @ showNat (startHeight p) @ ''-'' @ showNat (endHeight p)
                           @ [CHR 0x22]) periods)
       @ '']''"

text \<open>
  \<^verbatim>\<open>fetchProcessData\<close>: the data it returns, the cache afterwards, and what its loop did.
  \<open>now\<close> is \<^verbatim>\<open>Date.now()\<close> at the cache check and \<open>later\<close> at the store. With a fresh
  entry in the cache it returns the cached data and sends no request. The outer
  \<^verbatim>\<open>catch\<close> rethrows, but nothing outside the inner \<^verbatim>\<open>try\<close> throws for an array of
  period objects, so the function has no failing result.
\<close>

record fetchOutcome =
  returned :: "dataPoint list"
  cacheAfter :: "(string, dataPoint list) responseCache"
  observed :: fetchRun

definition fetchProcessData ::
  "(string, dataPoint list) responseCache \<Rightarrow> int \<Rightarrow> (nat \<Rightarrow> subReply) \<Rightarrow> int
     \<Rightarrow> string \<Rightarrow> period list \<Rightarrow> fetchOutcome" where
  "fetchProcessData cache now net later processName periods =
     (let cacheKey = processCacheKey processName periods in
      case cacheLookup cache cacheKey (10 * 60 * 1000) now of
        Some d \<Rightarrow>
          \<lparr>returned = d, cacheAfter = cache,
           observed = \<lparr>results = [], events = [], logs = []\<rparr>\<rparr>
      | None \<Rightarrow>
          (let r = fetchChunks net processName periods 0 \<lparr>results = [], events = [], logs = []\<rparr>
           in \<lparr>returned = results r,
               cacheAfter = cacheStore cache cacheKey (results r) later,
               observed = r\<rparr>))"

section \<open>Series alignment: updateStandardCombinedChart\<close>

text \<open>
  \<^verbatim>\<open>[...new Set(allTimestamps)]\<close>: a \<^verbatim>\<open>Set\<close> keeps the first occurrence of each value,
  in insertion order.
\<close>

definition setAdd :: "'a list \<Rightarrow> 'a \<Rightarrow> 'a list" where
  "setAdd s x = (if x \<in> set s then s else s @ [x])"

definition newSet :: "'a list \<Rightarrow> 'a list" where
  "newSet xs = foldl setAdd [] xs"

definition uniqueTimestamps :: "dataPoint list \<Rightarrow> dataPoint list \<Rightarrow> jsTime list" where
  "uniqueTimestamps primaryData secondaryData =
     (let allTimestamps = map timestamp primaryData @ map timestamp secondaryData
      in sort_key timeValue (newSet allTimestamps))"

text \<open>
  What the function writes: the labels and the two value arrays of the chart, and the two
  aligned arrays it stores in \<^verbatim>\<open>historicalData\<close>. \<^verbatim>\<open>formatDate\<close> is imported from
  \<^verbatim>\<open>utils.js\<close>, whose text is not available; it is a parameter here, applied to the time
  value of the date.
\<close>

record 'l alignedChart =
  labels :: "'l list"
  primaryValues :: "int option list"
  secondaryValues :: "int option list"
  alignedPrimaryData :: "dataPoint list"
  alignedSecondaryData :: "dataPoint list"

text \<open>The body of \<^verbatim>\<open>uniqueTimestamps.forEach\<close>; \<^verbatim>\<open>Array.prototype.find\<close> is \<open>find\<close>.\<close>

definition alignStep ::
  "(int \<Rightarrow> 'l) \<Rightarrow> dataPoint list \<Rightarrow> dataPoint list \<Rightarrow> 'l alignedChart \<Rightarrow> jsTime
     \<Rightarrow> 'l alignedChart" where
  "alignStep formatDate primaryData secondaryData acc ts =
     (let primaryPoint = find (\<lambda>d. timestamp d = ts) primaryData;
          secondaryPoint = find (\<lambda>d. timestamp d = ts) secondaryData
      in \<lparr>labels = labels acc @ [formatDate (timeValue ts)],
          primaryValues = primaryValues acc
            @ [case primaryPoint of Some p \<Rightarrow> count p | None \<Rightarrow> None],
          secondaryValues = secondaryValues acc
            @ [case secondaryPoint of Some p \<Rightarrow> count p | None \<Rightarrow> None],
          alignedPrimaryData = alignedPrimaryData acc
            @ [case primaryPoint of Some p \<Rightarrow> p | None \<Rightarrow> \<lparr>timestamp = ts, count = None\<rparr>],
          alignedSecondaryData = alignedSecondaryData acc
            @ [case secondaryPoint of Some p \<Rightarrow> p | None \<Rightarrow> \<lparr>timestamp = ts, count = None\<rparr>]\<rparr>)"

definition updateStandardCombinedChart ::
  "(int \<Rightarrow> 'l) \<Rightarrow> dataPoint list \<Rightarrow> dataPoint list \<Rightarrow> 'l alignedChart" where
  "updateStandardCombinedChart formatDate primaryData secondaryData =
     foldl (alignStep formatDate primaryData secondaryData)
       \<lparr>labels = [], primaryValues = [], secondaryValues = [],
        alignedPrimaryData = [], alignedSecondaryData = []\<rparr>
       (uniqueTimestamps primaryData secondaryData)"

section \<open>Day-number adapter\<close>

text \<open>
  \<^verbatim>\<open>new Date(n)\<close> for an integer \<open>n\<close>: the date with time value \<open>n\<close>, or an invalid date
  (\<open>None\<close>) when \<open>n\<close> is more than 8.64e15 ms from the epoch. Products of integers are exact
  in JavaScript numbers up to 2^53, which is more than 8.64e15, and rounding keeps a
  product beyond 8.64e15 beyond it, so the integer product decides the case.
\<close>

definition maxTimeValue :: int where
  "maxTimeValue = 8640000000000000"

definition newDate :: "int \<Rightarrow> int option" where
  "newDate n = (if - maxTimeValue \<le> n \<and> n \<le> maxTimeValue then Some n else None)"

text \<open>
  The conversion in \<^verbatim>\<open>fetchRuneRealmStats\<close>: \<open>day\<close> is the integer that
  \<^verbatim>\<open>parseInt(day)\<close> reads from the key. The result is the time value of the \<^verbatim>\<open>Date\<close>
  stored as \<^verbatim>\<open>timestamp\<close>; \<open>None\<close> is the \<^verbatim>\<open>RangeError\<close> that \<^verbatim>\<open>toISOString()\<close>
  throws in the log line when the date is invalid.
\<close>

definition fetchRuneRealmStats_timestamp :: "int \<Rightarrow> int option" where
  "fetchRuneRealmStats_timestamp day = (let timestampMs = day * 86400000 in newDate timestampMs)"

text \<open>
  The conversion in the older \<^verbatim>\<open>updateRuneRealmChart\<close>, which stores
  \<^verbatim>\<open>timestamp.toISOString()\<close>.
\<close>

definition updateRuneRealmChart_timestamp :: "int \<Rightarrow> jsTime option" where
  "updateRuneRealmChart_timestamp dayNumber =
     map_option Iso (newDate (dayNumber * 24 * 60 * 60 * 1000))"

section \<open>Notions used to state the properties\<close>

text \<open>
  The points the first loop lets through: the elements of the array that are objects with
  a truthy timestamp, in order.
\<close>

fun accepted :: "item list \<Rightarrow> dataPoint list" where
  "accepted [] = []"
| "accepted (Point p # xs) = (if truthy (timestamp p) then p # accepted xs else accepted xs)"
| "accepted (Missing # xs) = accepted xs"
| "accepted (Untimed c # xs) = accepted xs"

text \<open>A point is of today when its day key is the day key of \<open>now\<close>.\<close>

definition isToday :: "int \<Rightarrow> dataPoint \<Rightarrow> bool" where
  "isToday now p \<longleftrightarrow> dateKey (timeOf p) = dateKey now"

text \<open>The midnight test of the source, on a point.\<close>

definition atMidnight :: "dataPoint \<Rightarrow> bool" where
  "atMidnight p \<longleftrightarrow> isMidnight (timeOf p)"

text \<open>
  One step of "keep the latest": the condition
  \<^verbatim>\<open>!best || new Date(item.timestamp) > new Date(best.timestamp)\<close> that both the today loop
  and the other loop use.
\<close>

definition keepLatest :: "dataPoint option \<Rightarrow> dataPoint \<Rightarrow> dataPoint option" where
  "keepLatest best p =
     (case best of
        None \<Rightarrow> Some p
      | Some old \<Rightarrow> if timeOf p > timeOf old then Some p else Some old)"

text \<open>What the function pushes for today, and the values of \<^verbatim>\<open>seen\<close>.\<close>

definition keptToday :: "dataPoint list \<Rightarrow> dataPoint list" where
  "keptToday todayEntries =
     (let (earliestToday, latestToday) = foldl todayStep (None, None) todayEntries
      in pushIf earliestToday @ pushIf latestToday)"

definition keptOthers :: "bool \<Rightarrow> dataPoint list \<Rightarrow> dataPoint list" where
  "keptOthers isWeekly otherEntries = map snd (foldl (otherStep isWeekly) [] otherEntries)"

definition earliestOf :: "dataPoint list \<Rightarrow> dataPoint option" where
  "earliestOf ts = (if filter atMidnight ts = [] then None else Some (last (filter atMidnight ts)))"

definition latestOf :: "dataPoint list \<Rightarrow> dataPoint option" where
  "latestOf ts = foldl keepLatest None (filter (\<lambda>p. \<not> atMidnight p) ts)"

text \<open>
  The place a point competes for: today's midnight second, the rest of today, or the
  bucket of another day or week.
\<close>

definition slot :: "int \<Rightarrow> bool \<Rightarrow> dataPoint \<Rightarrow> bool \<times> int" where
  "slot now w p =
     (if isToday now p then (True, if atMidnight p then 0 else 1) else (False, bucketKey w p))"

text \<open>
  The invariant of a canonical history: sorted by time, the points of other days in
  pairwise different buckets, and at most two points of today, of which at most one is in
  the midnight second (hours, minutes and seconds zero) and at most one is not.
\<close>

definition canonicalHistory :: "int \<Rightarrow> bool \<Rightarrow> dataPoint list \<Rightarrow> bool" where
  "canonicalHistory now isWeekly h \<longleftrightarrow>
       sorted (map timeOf h)
     \<and> distinct (map (bucketKey isWeekly) (filter (\<lambda>p. \<not> isToday now p) h))
     \<and> length (filter (isToday now) h) \<le> 2
     \<and> length (filter (\<lambda>p. isToday now p \<and> atMidnight p) h) \<le> 1
     \<and> length (filter (\<lambda>p. isToday now p \<and> \<not> atMidnight p) h) \<le> 1"

text \<open>Today's points of an input, and the points of an input in the bucket \<open>k\<close> of another day.\<close>

definition todayPoints :: "int \<Rightarrow> item list \<Rightarrow> dataPoint list" where
  "todayPoints now xs = filter (isToday now) (accepted xs)"

definition bucketPoints :: "int \<Rightarrow> bool \<Rightarrow> int \<Rightarrow> item list \<Rightarrow> dataPoint list" where
  "bucketPoints now isWeekly k xs =
     filter (\<lambda>p. \<not> isToday now p \<and> bucketKey isWeekly p = k) (accepted xs)"

text \<open>The elements the first loop skips.\<close>

fun falsy :: "item \<Rightarrow> bool" where
  "falsy Missing = True"
| "falsy (Untimed c) = True"
| "falsy (Point p) = (\<not> truthy (timestamp p))"

text \<open>
  Cutting a list into consecutive chunks of \<open>n\<close> elements, the last one possibly shorter,
  and the schedule that submits the chunks in order with a delay of 100 ms between two
  chunks and none after the last.
\<close>

function chunksOf :: "nat \<Rightarrow> 'a list \<Rightarrow> 'a list list" where
  "chunksOf n xs = (if n = 0 \<or> xs = [] then [] else take n xs # chunksOf n (drop n xs))"
  by pat_completeness auto
termination
  by (relation "measure (\<lambda>(n, xs). length xs)") auto

fun delaysBetween :: "period list list \<Rightarrow> event list" where
  "delaysBetween [] = []"
| "delaysBetween (c # cs) = Submit c # (if cs = [] then [] else Delay 100 # delaysBetween cs)"

text \<open>The chunks submitted and the delays waited in a list of events, in order.\<close>

fun submitted :: "event list \<Rightarrow> period list list" where
  "submitted [] = []"
| "submitted (Submit c # es) = c # submitted es"
| "submitted (Delay ms # es) = submitted es"

fun delays :: "event list \<Rightarrow> nat list" where
  "delays [] = []"
| "delays (Submit c # es) = delays es"
| "delays (Delay ms # es) = ms # delays es"

text \<open>The sub-requests of the periods \<open>ps\<close>, numbered from \<open>i\<close>.\<close>

definition requestAll ::
  "(nat \<Rightarrow> subReply) \<Rightarrow> string \<Rightarrow> nat \<Rightarrow> period list \<Rightarrow> (dataPoint \<times> logLine list) list" where
  "requestAll net processName i ps =
     map (\<lambda>(n, p). fetchPeriod processName n p (net n)) (enumerate i ps)"

text \<open>
  A sub-request fails when the query cannot be built, the fetch is rejected, the status is
  not 2xx, the body does not parse, the body has an \<^verbatim>\<open>errors\<close> field, or the body has
  no \<^verbatim>\<open>data.transactions\<close> to read. A 2xx reply whose body has
  \<^verbatim>\<open>data.transactions\<close> is not a failure, with or without a count in it.
\<close>

fun failed :: "subReply \<Rightarrow> bool" where
  "failed QueryRejected = True"
| "failed (Http FetchRejected) = True"
| "failed (Http (Response status None)) = True"
| "failed (Http (Response status (Some WithErrors))) = True"
| "failed (Http (Response status (Some WithoutTransactions))) = True"
| "failed (Http (Response status (Some (WithCount c)))) = (\<not> responseOk status)"
| "failed (Http (Response status (Some WithoutCount))) = (\<not> responseOk status)"

text \<open>The failure is an \<^verbatim>\<open>errors\<close> field in the body of a 2xx response.\<close>

fun errorsField :: "subReply \<Rightarrow> bool" where
  "errorsField (Http (Response status (Some WithErrors))) = responseOk status"
| "errorsField _ = False"

text \<open>
  The count that the body of a reply carries: a number, or none (\<^verbatim>\<open>undefined\<close>) when
  \<^verbatim>\<open>data.transactions\<close> has no count.
\<close>

fun replyCount :: "subReply \<Rightarrow> int option" where
  "replyCount (Http (Response status (Some (WithCount c)))) = Some c"
| "replyCount _ = None"

text \<open>The state of the loop before the first chunk.\<close>

definition emptyRun :: fetchRun where
  "emptyRun = \<lparr>results = [], events = [], logs = []\<rparr>"

text \<open>
  The value and the stored point of a series at a timestamp: those of the first point
  with exactly that timestamp, or \<^verbatim>\<open>null\<close> and a point without count when there is none.
\<close>

definition valueAt :: "dataPoint list \<Rightarrow> jsTime \<Rightarrow> int option" where
  "valueAt series ts =
     (case find (\<lambda>d. timestamp d = ts) series of Some p \<Rightarrow> count p | None \<Rightarrow> None)"

definition pointAt :: "dataPoint list \<Rightarrow> jsTime \<Rightarrow> dataPoint" where
  "pointAt series ts =
     (case find (\<lambda>d. timestamp d = ts) series of
        Some p \<Rightarrow> p
      | None \<Rightarrow> \<lparr>timestamp = ts, count = None\<rparr>)"

declare chunksOf.simps [simp del]
declare fetchChunks.simps [simp del]

section \<open>Time arithmetic\<close>

lemma div_60000: "(t::int) div 60000 = t div 1000 div 60"
  using zdiv_zmult2_eq [of 60 t 1000] by simp

lemma div_3600000: "(t::int) div 3600000 = t div 1000 div 60 div 60"
  using zdiv_zmult2_eq [of 60 t 60000] div_60000 by simp

lemma div_86400000: "(t::int) div 86400000 = t div 1000 div 60 div 60 div 24"
  using zdiv_zmult2_eq [of 24 t 3600000] div_3600000 by simp

lemma time_split:
  fixes t :: int
  shows "t = 86400000 * utcDayNumber t + 3600000 * getUTCHours t + 60000 * getUTCMinutes t
           + 1000 * getUTCSeconds t + t mod 1000"
proof -
  define s where "s = t div 1000"
  define m where "m = s div 60"
  define h where "h = m div 60"
  define d where "d = h div 24"
  have 1: "t = 1000 * s + t mod 1000" by (simp add: s_def)
  have 2: "s = 60 * m + s mod 60" by (simp add: m_def)
  have 3: "m = 60 * h + m mod 60" by (simp add: h_def)
  have 4: "h = 24 * d + h mod 24" by (simp add: d_def)
  have "t = 1000 * (60 * (60 * (24 * d + h mod 24) + m mod 60) + s mod 60) + t mod 1000"
    using 1 2 3 4 by simp
  then have "t = 86400000 * d + 3600000 * (h mod 24) + 60000 * (m mod 60) + 1000 * (s mod 60) + t mod 1000"
    by (simp add: algebra_simps)
  then show ?thesis
    unfolding utcDayNumber_def msPerDay_def getUTCHours_def getUTCMinutes_def getUTCSeconds_def
      div_60000 div_3600000 div_86400000 d_def h_def m_def s_def .
qed

lemma midnight_day_start:
  assumes "isMidnight a"
  shows "a < 86400000 * dateKey a + 1000"
proof -
  have "a = 86400000 * utcDayNumber a + a mod 1000"
    using time_split [of a] assms by (simp add: isMidnight_def)
  moreover have "a mod 1000 < 1000" by simp
  ultimately show ?thesis unfolding dateKey_def by linarith
qed

lemma not_midnight_after:
  assumes "\<not> isMidnight b"
  shows "86400000 * dateKey b + 1000 \<le> b"
proof -
  have h: "0 \<le> getUTCHours b" and m: "0 \<le> getUTCMinutes b" and s: "0 \<le> getUTCSeconds b"
    unfolding getUTCHours_def getUTCMinutes_def getUTCSeconds_def by simp_all
  have r: "0 \<le> b mod 1000" by simp
  have "1 \<le> getUTCHours b \<or> 1 \<le> getUTCMinutes b \<or> 1 \<le> getUTCSeconds b"
    using assms h m s unfolding isMidnight_def by linarith
  then have "1000 \<le> 3600000 * getUTCHours b + 60000 * getUTCMinutes b + 1000 * getUTCSeconds b"
    using h m s by linarith
  then show ?thesis
    using time_split [of b] r unfolding dateKey_def by linarith
qed

lemma midnight_before:
  assumes "isMidnight a" "\<not> isMidnight b" "dateKey a = dateKey b"
  shows "a < b"
  using midnight_day_start [OF assms(1)] not_midnight_after [OF assms(2)] assms(3) by simp

section \<open>The three passes of the reconciliation\<close>

lemma partition_foldl:
  "foldl (partitionStep d) (ts, os) xs =
     (ts @ filter (\<lambda>p. dateKey (timeOf p) = d) (accepted xs),
      os @ filter (\<lambda>p. dateKey (timeOf p) \<noteq> d) (accepted xs))"
proof (induction xs arbitrary: ts os)
  case Nil
  then show ?case by simp
next
  case (Cons x xs)
  then show ?case by (cases x) simp_all
qed

lemma removeDuplicateDates_Some:
  "removeDuplicateDates now (Some xs) w =
     sort_key timeOf (keptOthers w (filter (\<lambda>p. \<not> isToday now p) (accepted xs))
                      @ keptToday (filter (isToday now) (accepted xs)))"
proof (cases "xs = []")
  case True
  then show ?thesis
    by (simp add: removeDuplicateDates_def keptOthers_def keptToday_def)
next
  case False
  then show ?thesis
    unfolding removeDuplicateDates_def keptOthers_def keptToday_def isToday_def
    by (simp add: partition_foldl Let_def split: prod.splits)
qed

text \<open>Keeping the latest: the result is a member, is maximal, and is the first maximal one.\<close>

lemma keepLatest_simps:
  "keepLatest None p = Some p"
  "keepLatest (Some old) p = (if timeOf p > timeOf old then Some p else Some old)"
  by (simp_all add: keepLatest_def)

lemma keepLatest_ge: "\<exists>b'. keepLatest b y = Some b' \<and> timeOf y \<le> timeOf b'"
  by (cases b) (simp_all add: keepLatest_simps)

lemma keepLatest_cases: "keepLatest b a = Some a \<or> keepLatest b a = b"
  by (cases b) (simp_all add: keepLatest_simps)

lemma today_foldl:
  "foldl todayStep (e, l) ts =
     (if filter atMidnight ts = [] then e else Some (last (filter atMidnight ts)),
      foldl keepLatest l (filter (\<lambda>p. \<not> atMidnight p) ts))"
  by (induction ts arbitrary: e l) (auto simp: atMidnight_def keepLatest_simps split: option.splits)

lemma keepLatest_None: "foldl keepLatest b xs = None \<longleftrightarrow> b = None \<and> xs = []"
proof (induction xs arbitrary: b)
  case Nil
  then show ?case by simp
next
  case (Cons a xs)
  from keepLatest_ge [of b a] have "keepLatest b a \<noteq> None" by auto
  with Cons.IH [of "keepLatest b a"] show ?case by simp
qed

lemma keepLatest_mem: "foldl keepLatest b xs = Some v \<Longrightarrow> b = Some v \<or> v \<in> set xs"
proof (induction xs arbitrary: b)
  case Nil
  then show ?case by simp
next
  case (Cons a xs)
  from Cons.prems have "foldl keepLatest (keepLatest b a) xs = Some v" by simp
  from Cons.IH [OF this] keepLatest_cases [of b a] show ?case by auto
qed

lemma keepLatest_start: "foldl keepLatest (Some old) xs = Some v \<Longrightarrow> timeOf old \<le> timeOf v"
proof (induction xs arbitrary: old)
  case Nil
  then show ?case by simp
next
  case (Cons x xs)
  show ?case
  proof (cases "timeOf x > timeOf old")
    case True
    with Cons.prems have "foldl keepLatest (Some x) xs = Some v" by (simp add: keepLatest_simps)
    from Cons.IH [OF this] True show ?thesis by simp
  next
    case False
    with Cons.prems have "foldl keepLatest (Some old) xs = Some v" by (simp add: keepLatest_simps)
    from Cons.IH [OF this] show ?thesis .
  qed
qed

lemma keepLatest_max:
  "foldl keepLatest b xs = Some v \<Longrightarrow> x \<in> set xs \<Longrightarrow> timeOf x \<le> timeOf v"
proof (induction xs arbitrary: b)
  case Nil
  then show ?case by simp
next
  case (Cons y ys)
  obtain b' where b': "keepLatest b y = Some b'" "timeOf y \<le> timeOf b'"
    using keepLatest_ge by blast
  from Cons.prems(1) b' have f: "foldl keepLatest (Some b') ys = Some v" by simp
  show ?case
  proof (cases "x = y")
    case True
    with keepLatest_start [OF f] b' show ?thesis by simp
  next
    case False
    with Cons.prems(2) have "x \<in> set ys" by simp
    from Cons.IH [OF f this] show ?thesis .
  qed
qed

lemma keepLatest_first_aux:
  "foldl keepLatest (Some old) xs = Some v \<Longrightarrow>
     (if timeOf v = timeOf old then v = old else find (\<lambda>x. timeOf x = timeOf v) xs = Some v)"
proof (induction xs arbitrary: old)
  case Nil
  then show ?case by simp
next
  case (Cons x xs)
  show ?case
  proof (cases "timeOf x > timeOf old")
    case True
    with Cons.prems have f: "foldl keepLatest (Some x) xs = Some v" by (simp add: keepLatest_simps)
    from keepLatest_start [OF f] True have ne: "timeOf v \<noteq> timeOf old" by simp
    show ?thesis
    proof (cases "timeOf v = timeOf x")
      case True
      with Cons.IH [OF f] have "v = x" by simp
      with ne show ?thesis by simp
    next
      case False
      with Cons.IH [OF f] ne show ?thesis by simp
    qed
  next
    case False
    with Cons.prems have f: "foldl keepLatest (Some old) xs = Some v" by (simp add: keepLatest_simps)
    from keepLatest_start [OF f] False Cons.IH [OF f] show ?thesis by (auto split: if_splits)
  qed
qed

lemma keepLatest_first:
  "foldl keepLatest None xs = Some v \<Longrightarrow> find (\<lambda>x. timeOf x = timeOf v) xs = Some v"
proof (cases xs)
  case Nil
  assume "foldl keepLatest None xs = Some v"
  with Nil show ?thesis by simp
next
  case (Cons x xs')
  assume "foldl keepLatest None xs = Some v"
  with Cons have "foldl keepLatest (Some x) xs' = Some v" by (simp add: keepLatest_simps)
  from keepLatest_first_aux [OF this] Cons show ?thesis by (auto split: if_splits)
qed


text \<open>
  The map \<^verbatim>\<open>seen\<close>: its keys stay distinct, every value lies in its own bucket, and the
  value of a bucket is the latest of the points of that bucket.
\<close>

lemma map_of_mapSet: "map_of (mapSet m k v) = (map_of m)(k \<mapsto> v)"
  by (induction m) (auto simp: fun_eq_iff)

lemma mapSet_fresh: "k \<notin> fst ` set m \<Longrightarrow> mapSet m k v = m @ [(k, v)]"
  by (induction m) auto

lemma fst_mapSet_present: "k \<in> fst ` set m \<Longrightarrow> map fst (mapSet m k v) = map fst m"
  by (induction m) force+

lemma fst_mapSet:
  "map fst (mapSet m k v) = (if k \<in> fst ` set m then map fst m else map fst m @ [k])"
  by (simp add: fst_mapSet_present mapSet_fresh)

lemma set_mapSet: "set (mapSet m k v) \<subseteq> insert (k, v) (set m)"
  by (induction m) (auto split: if_splits)

lemma otherStep_map_of:
  "map_of (otherStep w seen p) k =
     (if bucketKey w p = k then keepLatest (map_of seen k) p else map_of seen k)"
  by (auto simp: otherStep_def Let_def map_of_mapSet keepLatest_simps split: option.splits)

lemma others_map_of:
  "map_of (foldl (otherStep w) seen os) k =
     foldl keepLatest (map_of seen k) (filter (\<lambda>p. bucketKey w p = k) os)"
  by (induction os arbitrary: seen) (simp_all add: otherStep_map_of)

lemma otherStep_distinct:
  "distinct (map fst seen) \<Longrightarrow> distinct (map fst (otherStep w seen p))"
  by (auto simp: otherStep_def Let_def fst_mapSet map_of_eq_None_iff split: option.splits)

lemma others_distinct:
  "distinct (map fst seen) \<Longrightarrow> distinct (map fst (foldl (otherStep w) seen os))"
  by (induction os arbitrary: seen) (simp_all add: otherStep_distinct)

lemma otherStep_set:
  "set (otherStep w seen p) \<subseteq> insert (bucketKey w p, p) (set seen)"
  using set_mapSet [of seen "bucketKey w p" p]
  by (auto simp: otherStep_def Let_def split: option.splits)

lemma others_set:
  "set (foldl (otherStep w) seen os) \<subseteq> set seen \<union> (\<lambda>p. (bucketKey w p, p)) ` set os"
proof (induction os arbitrary: seen)
  case Nil
  then show ?case by simp
next
  case (Cons p os)
  from Cons.IH [of "otherStep w seen p"] otherStep_set [of w seen p]
  show ?case by auto
qed

lemma others_fresh:
  "distinct (map fst seen @ map (bucketKey w) os) \<Longrightarrow>
     foldl (otherStep w) seen os = seen @ map (\<lambda>p. (bucketKey w p, p)) os"
proof (induction os arbitrary: seen)
  case Nil
  then show ?case by simp
next
  case (Cons p os)
  from Cons.prems have fresh: "bucketKey w p \<notin> fst ` set seen" by auto
  then have step: "otherStep w seen p = seen @ [(bucketKey w p, p)]"
    by (simp add: otherStep_def Let_def map_of_eq_None_iff [THEN iffD2] mapSet_fresh)
  from Cons.prems have "distinct (map fst (seen @ [(bucketKey w p, p)]) @ map (bucketKey w) os)"
    by auto
  from Cons.IH [OF this] step show ?case by simp
qed

lemma keptOthers_subset: "set (keptOthers w os) \<subseteq> set os"
  using others_set [of w "[]" os] by (auto simp: keptOthers_def)

lemma keptOthers_keys:
  "map (bucketKey w) (keptOthers w os) = map fst (foldl (otherStep w) [] os)"
  using others_set [of w "[]" os] by (auto simp: keptOthers_def)

lemma keptOthers_distinct: "distinct (map (bucketKey w) (keptOthers w os))"
  using others_distinct [of "[]" w os] by (simp add: keptOthers_keys)

lemma keptOthers_fixed: "distinct (map (bucketKey w) os) \<Longrightarrow> keptOthers w os = os"
  using others_fresh [of "[]" w os] by (simp add: keptOthers_def comp_def)

lemma filter_assoc_key:
  "distinct (map fst m) \<Longrightarrow> \<forall>(k, v) \<in> set m. f v = k \<Longrightarrow>
     filter (\<lambda>v. f v = k) (map snd m) = pushIf (map_of m k)"
proof (induction m)
  case Nil
  then show ?case by simp
next
  case (Cons a m)
  obtain k' v' where a: "a = (k', v')" by (cases a)
  show ?case
  proof (cases "k' = k")
    case True
    with Cons.prems a have "\<forall>v \<in> set (map snd m). f v \<noteq> k" by force
    then have "filter (\<lambda>v. f v = k) (map snd m) = []" by (simp add: filter_empty_conv)
    with True a Cons.prems show ?thesis by simp
  next
    case False
    with Cons a show ?thesis by simp
  qed
qed

lemma keptOthers_bucket:
  "filter (\<lambda>p. bucketKey w p = k) (keptOthers w os) =
     pushIf (foldl keepLatest None (filter (\<lambda>p. bucketKey w p = k) os))"
proof -
  let ?seen = "foldl (otherStep w) [] os"
  have "distinct (map fst ?seen)" using others_distinct [of "[]" w os] by simp
  moreover have "\<forall>(k, v) \<in> set ?seen. bucketKey w v = k"
    using others_set [of w "[]" os] by auto
  ultimately have "filter (\<lambda>v. bucketKey w v = k) (map snd ?seen) = pushIf (map_of ?seen k)"
    by (rule filter_assoc_key)
  then show ?thesis by (simp add: keptOthers_def others_map_of)
qed


text \<open>What is kept of today, and the slots of all kept points.\<close>

lemma slot_today: "isToday now p \<Longrightarrow> slot now w p = (True, if atMidnight p then 0 else 1)"
  by (simp add: slot_def)

lemma slot_other: "\<not> isToday now p \<Longrightarrow> slot now w p = (False, bucketKey w p)"
  by (simp add: slot_def)

lemma slot_time: "timeOf p = timeOf q \<Longrightarrow> slot now w p = slot now w q"
  by (simp add: slot_def isToday_def atMidnight_def bucketKey_def)

lemma keptToday_eq: "keptToday ts = pushIf (earliestOf ts) @ pushIf (latestOf ts)"
  by (simp add: keptToday_def today_foldl earliestOf_def latestOf_def)

lemma earliestOf_Some: "earliestOf ts = Some e \<Longrightarrow> e \<in> set ts \<and> atMidnight e"
proof -
  assume a: "earliestOf ts = Some e"
  then have ne: "filter atMidnight ts \<noteq> []" and e: "e = last (filter atMidnight ts)"
    by (auto simp: earliestOf_def split: if_splits)
  from last_in_set [OF ne] e have "e \<in> set (filter atMidnight ts)" by simp
  then show ?thesis by simp
qed

lemma latestOf_Some:
  assumes "latestOf ts = Some l"
  shows "l \<in> set ts" and "\<not> atMidnight l"
    and "\<And>x. x \<in> set ts \<Longrightarrow> \<not> atMidnight x \<Longrightarrow> timeOf x \<le> timeOf l"
proof -
  from assms have f: "foldl keepLatest None (filter (\<lambda>p. \<not> atMidnight p) ts) = Some l"
    by (simp add: latestOf_def)
  from keepLatest_mem [OF f] show "l \<in> set ts" and "\<not> atMidnight l" by auto
  fix x assume "x \<in> set ts" "\<not> atMidnight x"
  then have "x \<in> set (filter (\<lambda>p. \<not> atMidnight p) ts)" by simp
  from keepLatest_max [OF f this] show "timeOf x \<le> timeOf l" .
qed

lemma keptToday_subset: "set (keptToday ts) \<subseteq> set ts"
proof
  fix x assume "x \<in> set (keptToday ts)"
  then have "earliestOf ts = Some x \<or> latestOf ts = Some x"
    by (cases "earliestOf ts"; cases "latestOf ts") (auto simp: keptToday_eq)
  then show "x \<in> set ts" using earliestOf_Some latestOf_Some(1) by blast
qed

lemma keptToday_sorted:
  assumes "\<forall>p \<in> set ts. isToday now p"
  shows "sort_key timeOf (keptToday ts) = keptToday ts"
proof (cases "earliestOf ts")
  case None
  then show ?thesis by (cases "latestOf ts") (simp_all add: keptToday_eq)
next
  case (Some e)
  note e = earliestOf_Some [OF Some]
  show ?thesis
  proof (cases "latestOf ts")
    case None
    with Some show ?thesis by (simp add: keptToday_eq)
  next
    case (Some l)
    note l = latestOf_Some [OF Some]
    from assms e l(1) have "dateKey (timeOf e) = dateKey (timeOf l)"
      by (simp add: isToday_def)
    with e l(2) have "timeOf e < timeOf l"
      using midnight_before [of "timeOf e" "timeOf l"] by (simp add: atMidnight_def)
    with Some \<open>earliestOf ts = Some e\<close> show ?thesis by (simp add: keptToday_eq)
  qed
qed

lemma keptToday_slots:
  assumes "\<forall>p \<in> set ts. isToday now p"
  shows "map (slot now w) (keptToday ts)
           = map (\<lambda>_. (True, 0)) (pushIf (earliestOf ts)) @ map (\<lambda>_. (True, 1)) (pushIf (latestOf ts))"
proof -
  have "map (slot now w) (pushIf (earliestOf ts)) = map (\<lambda>_. (True, 0)) (pushIf (earliestOf ts))"
  proof (cases "earliestOf ts")
    case None
    then show ?thesis by simp
  next
    case (Some e)
    from earliestOf_Some [OF Some] assms Some show ?thesis by (simp add: slot_today)
  qed
  moreover
  have "map (slot now w) (pushIf (latestOf ts)) = map (\<lambda>_. (True, 1)) (pushIf (latestOf ts))"
  proof (cases "latestOf ts")
    case None
    then show ?thesis by simp
  next
    case (Some l)
    from latestOf_Some(1,2) [OF Some] assms Some show ?thesis by (simp add: slot_today)
  qed
  ultimately show ?thesis by (simp add: keptToday_eq)
qed

lemma keptToday_distinct:
  assumes "\<forall>p \<in> set ts. isToday now p"
  shows "distinct (map (slot now w) (keptToday ts))"
  unfolding keptToday_slots [OF assms]
  by (cases "earliestOf ts"; cases "latestOf ts") simp_all

lemma keptOthers_slots:
  assumes "\<forall>p \<in> set os. \<not> isToday now p"
  shows "map (slot now w) (keptOthers w os) = map (\<lambda>p. (False, bucketKey w p)) (keptOthers w os)"
  using assms keptOthers_subset [of w os] by (auto simp: slot_other)

lemma kept_distinct:
  assumes os: "\<forall>p \<in> set os. \<not> isToday now p" and ts: "\<forall>p \<in> set ts. isToday now p"
  shows "distinct (map (slot now w) (keptOthers w os @ keptToday ts))"
proof -
  have "distinct (map (\<lambda>p. (False, bucketKey w p)) (keptOthers w os))"
    using keptOthers_distinct [of w os] by (simp add: distinct_map inj_on_def)
  then have 1: "distinct (map (slot now w) (keptOthers w os))"
    by (simp only: keptOthers_slots [OF os])
  have 2: "distinct (map (slot now w) (keptToday ts))"
    by (rule keptToday_distinct [OF ts])
  have 3: "set (map (slot now w) (keptOthers w os))
      \<inter> set (map (slot now w) (keptToday ts)) = {}"
    unfolding keptOthers_slots [OF os] keptToday_slots [OF ts] by auto
  from 1 2 3 show ?thesis unfolding map_append distinct_append by blast
qed

text \<open>Facts about lists: distinct keys, and sorting a permutation of a sorted list.\<close>

lemma short_list_cases: "length xs \<le> 1 \<Longrightarrow> xs = [] \<or> (\<exists>x. xs = [x])"
  by (cases xs) auto

lemma distinct_map_ConsD:
  assumes "distinct (map f (x # xs))" and "y \<in> set xs"
  shows "f x \<noteq> f y"
proof
  assume eq: "f x = f y"
  from assms(2) have "f y \<in> f ` set xs" by (rule imageI)
  with eq have "f x \<in> f ` set xs" by simp
  with assms(1) show False by simp
qed

lemma distinct_map_filter_le1: "distinct (map f xs) \<Longrightarrow> length (filter (\<lambda>x. f x = c) xs) \<le> 1"
proof (induction xs)
  case Nil
  then show ?case by simp
next
  case (Cons x xs)
  from Cons.prems have d: "distinct (map f xs)" by simp
  show ?case
  proof (cases "f x = c")
    case True
    have "\<forall>y \<in> set xs. f y \<noteq> c"
      using distinct_map_ConsD [OF Cons.prems] True by metis
    then have "filter (\<lambda>x. f x = c) xs = []" by (simp add: filter_empty_conv)
    with True show ?thesis by simp
  next
    case False
    with Cons.IH [OF d] show ?thesis by simp
  qed
qed

lemma distinct_map_filter_self:
  "distinct (map f xs) \<Longrightarrow> k \<in> set xs \<Longrightarrow> filter (\<lambda>x. f k = f x) xs = [k]"
proof (induction xs)
  case Nil
  then show ?case by simp
next
  case (Cons x xs)
  from Cons.prems have d: "distinct (map f xs)" by simp
  show ?case
  proof (cases "k = x")
    case True
    have "\<forall>y \<in> set xs. f k \<noteq> f y"
      using distinct_map_ConsD [OF Cons.prems(1)] True by metis
    then have "filter (\<lambda>x. f k = f x) xs = []" by (simp add: filter_empty_conv)
    with True show ?thesis by simp
  next
    case False
    with Cons.prems have k: "k \<in> set xs" by simp
    from distinct_map_ConsD [OF Cons.prems(1) k] have "f k \<noteq> f x" by simp
    with Cons.IH [OF d k] show ?thesis by simp
  qed
qed

lemma mset_filter_partition: "mset (filter P xs @ filter (\<lambda>x. \<not> P x) xs) = mset xs"
  by (induction xs) simp_all

lemma distinct_map_coarser:
  assumes "distinct (map h xs)" and "\<And>x y. f x = f y \<Longrightarrow> h x = h y"
  shows "distinct (map f xs)"
  using assms(1)
proof (induction xs)
  case Nil
  then show ?case by simp
next
  case (Cons x xs)
  from Cons.prems have d: "distinct (map h xs)" by simp
  have "f x \<notin> f ` set xs"
  proof
    assume "f x \<in> f ` set xs"
    then obtain y where y: "y \<in> set xs" and eq: "f x = f y" by auto
    from distinct_map_ConsD [OF Cons.prems y] assms(2) [OF eq] show False by simp
  qed
  with Cons.IH [OF d] show ?case by simp
qed

lemma distinct_map_mset:
  assumes "mset xs = mset ys"
  shows "distinct (map f xs) \<longleftrightarrow> distinct (map f ys)"
proof -
  have "mset (map f xs) = mset (map f ys)" by (simp only: mset_map assms)
  then show ?thesis by (rule mset_eq_imp_distinct_iff)
qed

lemma sort_key_perm_distinct:
  assumes perm: "mset xs = mset ys" and srt: "sorted (map f ys)" and dist: "distinct (map f ys)"
  shows "sort_key f xs = ys"
proof (rule properties_for_sort_key)
  from perm show "mset ys = mset xs" by (rule sym)
  from srt show "sorted (map f ys)" .
  fix k assume k: "k \<in> set ys"
  from perm have "set xs = set ys" by (rule mset_eq_setD)
  with k have k': "k \<in> set xs" by blast
  from dist have dist': "distinct (map f xs)" using distinct_map_mset [OF perm, of f] by blast
  from distinct_map_filter_self [OF dist k] distinct_map_filter_self [OF dist' k']
  show "filter (\<lambda>x. f k = f x) ys = filter (\<lambda>x. f k = f x) xs" by (rule trans [OF _ sym])
qed

text \<open>The output as a whole, and the input that a second pass leaves unchanged.\<close>

lemma accepted_sound: "p \<in> set (accepted xs) \<Longrightarrow> Point p \<in> set xs \<and> truthy (timestamp p)"
  by (induction xs rule: accepted.induct) (auto split: if_splits)

lemma accepted_complete: "Point p \<in> set xs \<Longrightarrow> truthy (timestamp p) \<Longrightarrow> p \<in> set (accepted xs)"
  by (induction xs rule: accepted.induct) auto

lemma accepted_map_Point: "\<forall>p \<in> set ys. truthy (timestamp p) \<Longrightarrow> accepted (map Point ys) = ys"
  by (induction ys) simp_all


lemma rdd_mset:
  "mset (removeDuplicateDates now (Some xs) w) =
     mset (keptOthers w (filter (\<lambda>p. \<not> isToday now p) (accepted xs))
           @ keptToday (filter (isToday now) (accepted xs)))"
  by (simp only: removeDuplicateDates_Some mset_sort)


lemma rdd_sorted: "sorted (map timeOf (removeDuplicateDates now d w))"
  by (cases d) (simp_all add: removeDuplicateDates_Some, simp add: removeDuplicateDates_def)


lemma rdd_slots: "distinct (map (slot now w) (removeDuplicateDates now (Some xs) w))"
proof -
  have "distinct (map (slot now w)
          (keptOthers w (filter (\<lambda>p. \<not> isToday now p) (accepted xs))
           @ keptToday (filter (isToday now) (accepted xs))))"
    by (rule kept_distinct) simp_all
  then show ?thesis by (simp only: distinct_map_mset [OF rdd_mset])
qed


lemma rdd_subset: "set (removeDuplicateDates now (Some xs) w) \<subseteq> set (accepted xs)"
proof -
  have "set (removeDuplicateDates now (Some xs) w) =
     set (keptOthers w (filter (\<lambda>p. \<not> isToday now p) (accepted xs))
           @ keptToday (filter (isToday now) (accepted xs)))"
    using rdd_mset [of now xs w] by (rule mset_eq_setD)
  then show ?thesis
    using keptOthers_subset [of w "filter (\<lambda>p. \<not> isToday now p) (accepted xs)"]
      keptToday_subset [of "filter (isToday now) (accepted xs)"]
    by auto
qed


lemma rdd_today_part:
  "filter (isToday now) (removeDuplicateDates now (Some xs) w) =
     keptToday (filter (isToday now) (accepted xs))"
proof -
  let ?os = "filter (\<lambda>p. \<not> isToday now p) (accepted xs)"
  let ?ts = "filter (isToday now) (accepted xs)"
  have 1: "filter (isToday now) (keptOthers w ?os) = []"
    using keptOthers_subset [of w ?os] by (auto simp: filter_empty_conv)
  have 2: "filter (isToday now) (keptToday ?ts) = keptToday ?ts"
    using keptToday_subset [of ?ts] by (auto simp: filter_id_conv)
  have "sort_key timeOf (keptToday ?ts) = keptToday ?ts"
    by (rule keptToday_sorted [of _ now]) simp
  with 1 2 show ?thesis by (simp add: removeDuplicateDates_Some filter_sort)
qed


lemma rdd_other_part:
  "filter (\<lambda>p. \<not> isToday now p) (removeDuplicateDates now (Some xs) w) =
     sort_key timeOf (keptOthers w (filter (\<lambda>p. \<not> isToday now p) (accepted xs)))"
proof -
  let ?os = "filter (\<lambda>p. \<not> isToday now p) (accepted xs)"
  let ?ts = "filter (isToday now) (accepted xs)"
  have 1: "filter (\<lambda>p. \<not> isToday now p) (keptOthers w ?os) = keptOthers w ?os"
    using keptOthers_subset [of w ?os] by (auto simp: filter_id_conv)
  have 2: "filter (\<lambda>p. \<not> isToday now p) (keptToday ?ts) = []"
    using keptToday_subset [of ?ts] by (auto simp: filter_empty_conv)
  from 1 2 show ?thesis by (simp add: removeDuplicateDates_Some filter_sort)
qed


lemma keptToday_fixed:
  assumes "length (filter atMidnight ts) \<le> 1" and "length (filter (\<lambda>p. \<not> atMidnight p) ts) \<le> 1"
  shows "keptToday ts = filter atMidnight ts @ filter (\<lambda>p. \<not> atMidnight p) ts"
proof -
  from short_list_cases [OF assms(1)]
  have 1: "pushIf (earliestOf ts) = filter atMidnight ts"
    by (auto simp: earliestOf_def)
  from short_list_cases [OF assms(2)]
  have 2: "pushIf (latestOf ts) = filter (\<lambda>p. \<not> atMidnight p) ts"
    by (auto simp: latestOf_def keepLatest_simps)
  from 1 2 show ?thesis by (simp add: keptToday_eq)
qed


lemma rdd_fixpoint:
  assumes srt: "sorted (map timeOf ys)"
    and dist: "distinct (map (slot now w) ys)"
    and tr: "\<forall>p \<in> set ys. truthy (timestamp p)"
  shows "removeDuplicateDates now (Some (map Point ys)) w = ys"
proof -
  let ?os = "filter (\<lambda>p. \<not> isToday now p) ys"
  let ?ts = "filter (isToday now) ys"
  let ?slot = "slot now w"
  have "distinct (map ?slot ?os)" using dist by (rule distinct_map_filter)
  moreover have "map ?slot ?os = map (\<lambda>p. (False, bucketKey w p)) ?os"
    by (simp add: slot_other)
  ultimately have "distinct (map (\<lambda>p. (False, bucketKey w p)) ?os)" by simp
  then have "distinct (map (bucketKey w) ?os)" by (rule distinct_map_coarser) simp
  then have os: "keptOthers w ?os = ?os" by (rule keptOthers_fixed)
  have dts: "distinct (map ?slot ?ts)" using dist by (rule distinct_map_filter)
  have "filter atMidnight ?ts = filter (\<lambda>p. ?slot p = (True, 0)) ?ts"
    by (rule filter_cong) (auto simp: slot_today)
  with distinct_map_filter_le1 [OF dts, of "(True, 0)"]
  have m: "length (filter atMidnight ?ts) \<le> 1" by simp
  have "filter (\<lambda>p. \<not> atMidnight p) ?ts = filter (\<lambda>p. ?slot p = (True, 1)) ?ts"
    by (rule filter_cong) (auto simp: slot_today)
  with distinct_map_filter_le1 [OF dts, of "(True, 1)"]
  have n: "length (filter (\<lambda>p. \<not> atMidnight p) ?ts) \<le> 1" by simp
  have ts: "keptToday ?ts = filter atMidnight ?ts @ filter (\<lambda>p. \<not> atMidnight p) ?ts"
    using m n by (rule keptToday_fixed)
  have "mset (keptOthers w ?os @ keptToday ?ts) = mset (?os @ ?ts)"
    unfolding os ts using mset_filter_partition [of atMidnight ?ts] by simp
  also have "\<dots> = mset (?ts @ ?os)" by simp
  also have "\<dots> = mset ys" by (rule mset_filter_partition)
  finally have "mset (keptOthers w ?os @ keptToday ?ts) = mset ys" .
  moreover from dist have "distinct (map timeOf ys)"
    by (rule distinct_map_coarser) (rule slot_time)
  ultimately have "sort_key timeOf (keptOthers w ?os @ keptToday ?ts) = ys"
    using srt by (intro sort_key_perm_distinct)
  then show ?thesis by (simp add: removeDuplicateDates_Some accepted_map_Point [OF tr])
qed


lemma rdd_None: "removeDuplicateDates now None w = []"
  by (simp add: removeDuplicateDates_def)

lemma rdd_canonical_Some: "canonicalHistory now w (removeDuplicateDates now (Some xs) w)"
proof -
  let ?out = "removeDuplicateDates now (Some xs) w"
  let ?os = "filter (\<lambda>p. \<not> isToday now p) (accepted xs)"
  let ?ts = "filter (isToday now) (accepted xs)"
  have 1: "sorted (map timeOf ?out)" by (rule rdd_sorted)
  have "mset (sort_key timeOf (keptOthers w ?os)) = mset (keptOthers w ?os)" by simp
  from distinct_map_mset [OF this, of "bucketKey w"] keptOthers_distinct [of w ?os]
  have 2: "distinct (map (bucketKey w) (filter (\<lambda>p. \<not> isToday now p) ?out))"
    by (simp only: rdd_other_part)
  have 3: "length (filter (isToday now) ?out) \<le> 2"
    unfolding rdd_today_part keptToday_eq
    by (cases "earliestOf ?ts"; cases "latestOf ?ts") simp_all
  have "filter (\<lambda>p. isToday now p \<and> atMidnight p) ?out = filter (\<lambda>p. slot now w p = (True, 0)) ?out"
    by (rule filter_cong) (auto simp: slot_def)
  with distinct_map_filter_le1 [where c = "(True, 0)", OF rdd_slots [of now w xs]]
  have 4: "length (filter (\<lambda>p. isToday now p \<and> atMidnight p) ?out) \<le> 1" by simp
  have "filter (\<lambda>p. isToday now p \<and> \<not> atMidnight p) ?out = filter (\<lambda>p. slot now w p = (True, 1)) ?out"
    by (rule filter_cong) (auto simp: slot_def)
  with distinct_map_filter_le1 [where c = "(True, 1)", OF rdd_slots [of now w xs]]
  have 5: "length (filter (\<lambda>p. isToday now p \<and> \<not> atMidnight p) ?out) \<le> 1" by simp
  from 1 2 3 4 5 show ?thesis unfolding canonicalHistory_def by blast
qed

lemma rdd_bucket:
  assumes "bucketPoints now w k xs \<noteq> []"
  shows "\<exists>v. filter (\<lambda>p. \<not> isToday now p \<and> bucketKey w p = k) (removeDuplicateDates now (Some xs) w) = [v]
           \<and> foldl keepLatest None (bucketPoints now w k xs) = Some v"
proof -
  let ?os = "filter (\<lambda>p. \<not> isToday now p) (accepted xs)"
  have b: "bucketPoints now w k xs = filter (\<lambda>p. bucketKey w p = k) ?os"
    by (simp add: bucketPoints_def conj_commute)
  from assms obtain v where v: "foldl keepLatest None (bucketPoints now w k xs) = Some v"
    using keepLatest_None [of None "bucketPoints now w k xs"] by (cases "foldl keepLatest None (bucketPoints now w k xs)") auto
  have "filter (\<lambda>p. \<not> isToday now p \<and> bucketKey w p = k) (removeDuplicateDates now (Some xs) w)
      = filter (\<lambda>p. bucketKey w p = k) (filter (\<lambda>p. \<not> isToday now p) (removeDuplicateDates now (Some xs) w))"
    by (simp add: conj_commute)
  also have "\<dots> = sort_key timeOf (filter (\<lambda>p. bucketKey w p = k) (keptOthers w ?os))"
    by (simp only: rdd_other_part filter_sort)
  also have "\<dots> = sort_key timeOf (pushIf (foldl keepLatest None (bucketPoints now w k xs)))"
    by (simp only: keptOthers_bucket b)
  also have "\<dots> = [v]" by (simp add: v)
  finally show ?thesis using v by blast
qed

lemmas rdd_eval = removeDuplicateDates_def Let_def dateKey_def utcDayNumber_def msPerDay_def
  otherStep_def bucketKey_def isMidnight_def getUTCHours_def getUTCMinutes_def getUTCSeconds_def
  weekStartKey_def getUTCDay_def isToday_def atMidnight_def

lemma accepted_append: "accepted (xs @ ys) = accepted xs @ accepted ys"
  by (induction xs rule: accepted.induct) simp_all

lemma accepted_falsy: "falsy z \<Longrightarrow> accepted (z # ys) = accepted ys"
  by (cases z) simp_all

section \<open>Properties of the reconciliation\<close>

text \<open>
  C1. Reconciliation is idempotent: for every input \<open>h\<close> (also \<^verbatim>\<open>null\<close>), every
  granularity flag and a fixed current time, applying \<^verbatim>\<open>removeDuplicateDates\<close> to its
  own output gives that output again.
\<close>

theorem removeDuplicateDates_idempotent:
  "removeDuplicateDates now (Some (map Point (removeDuplicateDates now h isWeekly))) isWeekly
     = removeDuplicateDates now h isWeekly"
proof (cases h)
  case None
  then show ?thesis by (simp add: removeDuplicateDates_def)
next
  case (Some xs)
  have "\<forall>p \<in> set (removeDuplicateDates now (Some xs) isWeekly). truthy (timestamp p)"
    using rdd_subset [of now xs isWeekly] accepted_sound by blast
  with rdd_sorted [of now "Some xs" isWeekly] rdd_slots [of now isWeekly xs]
  show ?thesis unfolding Some by (rule rdd_fixpoint)
qed

text \<open>
  C2. The output of the reconciliation is a canonical history: it is sorted by time, its
  points of other days lie in pairwise different buckets (days, or weeks for weekly
  data), and it has at most two points of today, at most one in the midnight second and
  at most one after it.
\<close>

theorem removeDuplicateDates_canonical:
  "canonicalHistory now isWeekly (removeDuplicateDates now h isWeekly)"
proof (cases h)
  case None
  then show ?thesis by (simp add: rdd_None canonicalHistory_def)
next
  case (Some xs)
  then show ?thesis by (simp only: rdd_canonical_Some)
qed

text \<open>
  C4, as amended. For every input and every bucket of another day (or week) that holds at
  least one accepted point, that is a point with a truthy timestamp, the output holds
  exactly one point of that bucket that is not of today: an accepted point of the bucket
  with the latest time, and among several with that time the first in input order.
\<close>

theorem latest_kept_per_bucket:
  assumes "bucketPoints now isWeekly k xs \<noteq> []"
  shows "\<exists>v. filter (\<lambda>p. \<not> isToday now p \<and> bucketKey isWeekly p = k)
               (removeDuplicateDates now (Some xs) isWeekly) = [v]
           \<and> v \<in> set (bucketPoints now isWeekly k xs)
           \<and> (\<forall>p \<in> set (bucketPoints now isWeekly k xs). timeOf p \<le> timeOf v)
           \<and> find (\<lambda>p. timeOf p = timeOf v) (bucketPoints now isWeekly k xs) = Some v"
proof -
  from rdd_bucket [OF assms] obtain v
    where out: "filter (\<lambda>p. \<not> isToday now p \<and> bucketKey isWeekly p = k)
                  (removeDuplicateDates now (Some xs) isWeekly) = [v]"
      and v: "foldl keepLatest None (bucketPoints now isWeekly k xs) = Some v"
    by blast
  from keepLatest_mem [OF v] have "v \<in> set (bucketPoints now isWeekly k xs)" by simp
  moreover from keepLatest_max [OF v]
  have "\<forall>p \<in> set (bucketPoints now isWeekly k xs). timeOf p \<le> timeOf v" by blast
  moreover note keepLatest_first [OF v] out
  ultimately show ?thesis by blast
qed

text \<open>An instance: three points of the same past day, given out of order.\<close>

theorem latest_kept_per_bucket_witness:
  "bucketPoints 1748440800000 False 20226
      [Point \<lparr>timestamp = Iso 1747530000000, count = Some 1\<rparr>,
       Point \<lparr>timestamp = Iso 1747544400000, count = Some 2\<rparr>,
       Point \<lparr>timestamp = Iso 1747537200000, count = Some 3\<rparr>] \<noteq> []
   \<and> (\<exists>v. filter (\<lambda>p. \<not> isToday 1748440800000 p \<and> bucketKey False p = 20226)
               (removeDuplicateDates 1748440800000
                  (Some [Point \<lparr>timestamp = Iso 1747530000000, count = Some 1\<rparr>,
                         Point \<lparr>timestamp = Iso 1747544400000, count = Some 2\<rparr>,
                         Point \<lparr>timestamp = Iso 1747537200000, count = Some 3\<rparr>]) False) = [v]
          \<and> v = \<lparr>timestamp = Iso 1747544400000, count = Some 2\<rparr>)"
proof -
  let ?xs = "[Point \<lparr>timestamp = Iso 1747530000000, count = Some 1\<rparr>,
       Point \<lparr>timestamp = Iso 1747544400000, count = Some 2\<rparr>,
       Point \<lparr>timestamp = Iso 1747537200000, count = Some 3\<rparr>]"
  have b: "bucketPoints 1748440800000 False 20226 ?xs =
     [\<lparr>timestamp = Iso 1747530000000, count = Some 1\<rparr>,
      \<lparr>timestamp = Iso 1747544400000, count = Some 2\<rparr>,
      \<lparr>timestamp = Iso 1747537200000, count = Some 3\<rparr>]"
    by (simp add: bucketPoints_def rdd_eval)
  then have ne: "bucketPoints 1748440800000 False 20226 ?xs \<noteq> []" by simp
  from latest_kept_per_bucket [OF ne] obtain v where
    out: "filter (\<lambda>p. \<not> isToday 1748440800000 p \<and> bucketKey False p = 20226)
               (removeDuplicateDates 1748440800000 (Some ?xs) False) = [v]"
    and mem: "v \<in> set (bucketPoints 1748440800000 False 20226 ?xs)"
    and mx: "\<forall>p \<in> set (bucketPoints 1748440800000 False 20226 ?xs). timeOf p \<le> timeOf v"
    by blast
  from mem mx have "v = \<lparr>timestamp = Iso 1747544400000, count = Some 2\<rparr>"
    unfolding b by auto
  with out ne show ?thesis by blast
qed

text \<open>
  Counting points whose timestamp is the number 0 the property fails: two points of
  1970-01-01 with timestamp 0 are both skipped and the daily output is empty; and in the
  week of 1969-12-28 a point with timestamp 0 is skipped although it is the latest of its
  bucket, and the weekly output keeps the earlier point.
\<close>

theorem latest_kept_per_bucket_counterexample:
  "\<not> isToday 1748444400000 \<lparr>timestamp = Num 0, count = Some 1\<rparr>
   \<and> bucketKey False \<lparr>timestamp = Num 0, count = Some 1\<rparr> = 0
   \<and> bucketKey False \<lparr>timestamp = Num 0, count = Some 2\<rparr> = 0
   \<and> removeDuplicateDates 1748444400000
        (Some [Point \<lparr>timestamp = Num 0, count = Some 1\<rparr>,
               Point \<lparr>timestamp = Num 0, count = Some 2\<rparr>]) False = []
   \<and> bucketKey True \<lparr>timestamp = Num (- 86400000), count = Some 1\<rparr> = - 4
   \<and> bucketKey True \<lparr>timestamp = Num 0, count = Some 2\<rparr> = - 4
   \<and> timeOf \<lparr>timestamp = Num (- 86400000), count = Some 1\<rparr>
       < timeOf \<lparr>timestamp = Num 0, count = Some 2\<rparr>
   \<and> removeDuplicateDates 1748444400000
        (Some [Point \<lparr>timestamp = Num (- 86400000), count = Some 1\<rparr>,
               Point \<lparr>timestamp = Num 0, count = Some 2\<rparr>]) True
       = [\<lparr>timestamp = Num (- 86400000), count = Some 1\<rparr>]"
  by (simp add: rdd_eval)

text \<open>
  C3, as amended. Among today's points the output keeps at most two, in this order: the
  last point in input order whose UTC hours, minutes and seconds are zero, and then the
  latest of the other points of today (the first of them in input order when several have
  that time); the first is earlier than the second. In particular, when today's points
  of the input are one point in the midnight second and one point after it, in either
  order, the output holds both, the midnight point first.
\<close>

theorem today_kept:
  "(\<exists>e l. filter (isToday now) (removeDuplicateDates now (Some xs) isWeekly) = pushIf e @ pushIf l
       \<and> (case e of
            None \<Rightarrow> filter atMidnight (todayPoints now xs) = []
          | Some m \<Rightarrow> filter atMidnight (todayPoints now xs) \<noteq> []
                      \<and> m = last (filter atMidnight (todayPoints now xs)))
       \<and> (case l of
            None \<Rightarrow> filter (\<lambda>p. \<not> atMidnight p) (todayPoints now xs) = []
          | Some q \<Rightarrow> q \<in> set (todayPoints now xs) \<and> \<not> atMidnight q
                      \<and> (\<forall>p \<in> set (todayPoints now xs). \<not> atMidnight p \<longrightarrow> timeOf p \<le> timeOf q)
                      \<and> find (\<lambda>p. timeOf p = timeOf q) (filter (\<lambda>p. \<not> atMidnight p) (todayPoints now xs)) = Some q)
       \<and> (\<forall>m q. e = Some m \<and> l = Some q \<longrightarrow> timeOf m < timeOf q))
   \<and> (atMidnight m \<and> \<not> atMidnight q \<and> (todayPoints now xs = [m, q] \<or> todayPoints now xs = [q, m])
        \<longrightarrow> filter (isToday now) (removeDuplicateDates now (Some xs) isWeekly) = [m, q])"
proof (intro conjI impI)
  let ?ts = "todayPoints now xs"
  have out: "filter (isToday now) (removeDuplicateDates now (Some xs) isWeekly)
      = pushIf (earliestOf ?ts) @ pushIf (latestOf ?ts)"
    by (simp add: rdd_today_part keptToday_eq todayPoints_def)
  have e: "case earliestOf ?ts of
            None \<Rightarrow> filter atMidnight ?ts = []
          | Some m \<Rightarrow> filter atMidnight ?ts \<noteq> [] \<and> m = last (filter atMidnight ?ts)"
    by (simp add: earliestOf_def)
  have l: "case latestOf ?ts of
            None \<Rightarrow> filter (\<lambda>p. \<not> atMidnight p) ?ts = []
          | Some q \<Rightarrow> q \<in> set ?ts \<and> \<not> atMidnight q
                      \<and> (\<forall>p \<in> set ?ts. \<not> atMidnight p \<longrightarrow> timeOf p \<le> timeOf q)
                      \<and> find (\<lambda>p. timeOf p = timeOf q) (filter (\<lambda>p. \<not> atMidnight p) ?ts) = Some q"
  proof (cases "latestOf ?ts")
    case None
    then show ?thesis by (simp add: latestOf_def keepLatest_None)
  next
    case (Some q)
    from Some have "find (\<lambda>p. timeOf p = timeOf q) (filter (\<lambda>p. \<not> atMidnight p) ?ts) = Some q"
      unfolding latestOf_def by (rule keepLatest_first)
    with latestOf_Some [OF Some] Some show ?thesis by simp
  qed
  have ord: "\<forall>m q. earliestOf ?ts = Some m \<and> latestOf ?ts = Some q \<longrightarrow> timeOf m < timeOf q"
  proof (intro allI impI)
    fix m q assume a: "earliestOf ?ts = Some m \<and> latestOf ?ts = Some q"
    then have m: "m \<in> set ?ts" "atMidnight m" and q: "q \<in> set ?ts" "\<not> atMidnight q"
      using earliestOf_Some latestOf_Some(1,2) by blast+
    from m(1) q(1) have "dateKey (timeOf m) = dateKey (timeOf q)"
      by (simp add: todayPoints_def isToday_def)
    with m(2) q(2) show "timeOf m < timeOf q"
      using midnight_before [of "timeOf m" "timeOf q"] by (simp add: atMidnight_def)
  qed
  from out e l ord
  show "\<exists>e l. filter (isToday now) (removeDuplicateDates now (Some xs) isWeekly) = pushIf e @ pushIf l
       \<and> (case e of
            None \<Rightarrow> filter atMidnight (todayPoints now xs) = []
          | Some m \<Rightarrow> filter atMidnight (todayPoints now xs) \<noteq> []
                      \<and> m = last (filter atMidnight (todayPoints now xs)))
       \<and> (case l of
            None \<Rightarrow> filter (\<lambda>p. \<not> atMidnight p) (todayPoints now xs) = []
          | Some q \<Rightarrow> q \<in> set (todayPoints now xs) \<and> \<not> atMidnight q
                      \<and> (\<forall>p \<in> set (todayPoints now xs). \<not> atMidnight p \<longrightarrow> timeOf p \<le> timeOf q)
                      \<and> find (\<lambda>p. timeOf p = timeOf q) (filter (\<lambda>p. \<not> atMidnight p) (todayPoints now xs)) = Some q)
       \<and> (\<forall>m q. e = Some m \<and> l = Some q \<longrightarrow> timeOf m < timeOf q)"
    by blast
next
  assume a: "atMidnight m \<and> \<not> atMidnight q \<and> (todayPoints now xs = [m, q] \<or> todayPoints now xs = [q, m])"
  then have "earliestOf (todayPoints now xs) = Some m" and "latestOf (todayPoints now xs) = Some q"
    by (auto simp: earliestOf_def latestOf_def keepLatest_simps)
  then show "filter (isToday now) (removeDuplicateDates now (Some xs) isWeekly) = [m, q]"
    by (simp add: rdd_today_part keptToday_eq todayPoints_def)
qed

text \<open>
  An instance: today's points arrive as a 14:00:00 point and then the 00:00:00 point, with
  a point of another day between them.
\<close>

theorem today_kept_witness:
  "atMidnight \<lparr>timestamp = Iso 1748390400000, count = Some 1\<rparr>
   \<and> \<not> atMidnight \<lparr>timestamp = Iso 1748440800000, count = Some 2\<rparr>
   \<and> todayPoints 1748444400000
        [Point \<lparr>timestamp = Iso 1748440800000, count = Some 2\<rparr>,
         Point \<lparr>timestamp = Iso 1747530000000, count = Some 3\<rparr>,
         Point \<lparr>timestamp = Iso 1748390400000, count = Some 1\<rparr>]
       = [\<lparr>timestamp = Iso 1748440800000, count = Some 2\<rparr>,
          \<lparr>timestamp = Iso 1748390400000, count = Some 1\<rparr>]
   \<and> filter (isToday 1748444400000)
        (removeDuplicateDates 1748444400000
           (Some [Point \<lparr>timestamp = Iso 1748440800000, count = Some 2\<rparr>,
                  Point \<lparr>timestamp = Iso 1747530000000, count = Some 3\<rparr>,
                  Point \<lparr>timestamp = Iso 1748390400000, count = Some 1\<rparr>]) False)
       = [\<lparr>timestamp = Iso 1748390400000, count = Some 1\<rparr>,
          \<lparr>timestamp = Iso 1748440800000, count = Some 2\<rparr>]"
proof -
  let ?m = "\<lparr>timestamp = Iso 1748390400000, count = Some 1\<rparr>"
  let ?q = "\<lparr>timestamp = Iso 1748440800000, count = Some 2\<rparr>"
  let ?xs = "[Point ?q, Point \<lparr>timestamp = Iso 1747530000000, count = Some 3\<rparr>, Point ?m]"
  have m: "atMidnight ?m" and q: "\<not> atMidnight ?q"
    by (simp_all add: rdd_eval)
  have t: "todayPoints 1748444400000 ?xs = [?q, ?m]"
    by (simp add: todayPoints_def rdd_eval)
  from m q t have "atMidnight ?m \<and> \<not> atMidnight ?q
      \<and> (todayPoints 1748444400000 ?xs = [?m, ?q] \<or> todayPoints 1748444400000 ?xs = [?q, ?m])"
    by blast
  from today_kept [THEN conjunct2, THEN mp, OF this] m q t show ?thesis by blast
qed

text \<open>
  Without the restriction to a later point after the midnight second the property fails:
  given today's point at exactly 00:00:00.000 and a later point of today at 00:00:00.500,
  the second passes the midnight test as well and replaces the first, so the output does
  not hold the exact-midnight point.
\<close>

theorem today_kept_counterexample:
  "isToday 1748444400000 \<lparr>timestamp = Iso 1748390400000, count = Some 1\<rparr>
   \<and> timeOf \<lparr>timestamp = Iso 1748390400000, count = Some 1\<rparr> mod 86400000 = 0
   \<and> isToday 1748444400000 \<lparr>timestamp = Iso 1748390400500, count = Some 2\<rparr>
   \<and> timeOf \<lparr>timestamp = Iso 1748390400000, count = Some 1\<rparr>
       < timeOf \<lparr>timestamp = Iso 1748390400500, count = Some 2\<rparr>
   \<and> removeDuplicateDates 1748444400000
        (Some [Point \<lparr>timestamp = Iso 1748390400000, count = Some 1\<rparr>,
               Point \<lparr>timestamp = Iso 1748390400500, count = Some 2\<rparr>]) False
       = [\<lparr>timestamp = Iso 1748390400500, count = Some 2\<rparr>]
   \<and> \<lparr>timestamp = Iso 1748390400000, count = Some 1\<rparr>
       \<notin> set (removeDuplicateDates 1748444400000
                  (Some [Point \<lparr>timestamp = Iso 1748390400000, count = Some 1\<rparr>,
                         Point \<lparr>timestamp = Iso 1748390400500, count = Some 2\<rparr>]) False)"
  by (simp add: rdd_eval)

text \<open>
  C10. The reconciliation discards every element that is \<^verbatim>\<open>null\<close> or \<^verbatim>\<open>undefined\<close> or
  whose timestamp is falsy, the number 0 included: such an element can be removed from
  the input without changing the output, and every point of the output is a point of
  the input with a truthy timestamp. A \<^verbatim>\<open>null\<close> input and an empty input give the
  empty output. The function has no failing branch on these inputs.
\<close>

theorem falsy_discarded:
  "removeDuplicateDates now None isWeekly = []
   \<and> removeDuplicateDates now (Some []) isWeekly = []
   \<and> falsy Missing \<and> falsy (Untimed c) \<and> falsy (Point \<lparr>timestamp = Num 0, count = c\<rparr>)
   \<and> (falsy z \<longrightarrow> removeDuplicateDates now (Some (xs @ z # ys)) isWeekly
                    = removeDuplicateDates now (Some (xs @ ys)) isWeekly)
   \<and> (\<forall>p \<in> set (removeDuplicateDates now (Some xs) isWeekly).
          Point p \<in> set xs \<and> truthy (timestamp p))"
proof (intro conjI impI ballI)
  show "removeDuplicateDates now None isWeekly = []" by (rule rdd_None)
  show "removeDuplicateDates now (Some []) isWeekly = []" by (simp add: removeDuplicateDates_def)
  show "falsy Missing" "falsy (Untimed c)" "falsy (Point \<lparr>timestamp = Num 0, count = c\<rparr>)"
    by simp_all
next
  assume "falsy z"
  then have "accepted (xs @ z # ys) = accepted (xs @ ys)"
    by (simp add: accepted_append accepted_falsy)
  then show "removeDuplicateDates now (Some (xs @ z # ys)) isWeekly
               = removeDuplicateDates now (Some (xs @ ys)) isWeekly"
    by (simp only: removeDuplicateDates_Some)
next
  fix p assume "p \<in> set (removeDuplicateDates now (Some xs) isWeekly)"
  with rdd_subset [of now xs isWeekly] have "p \<in> set (accepted xs)" by blast
  then show "Point p \<in> set xs" "truthy (timestamp p)" using accepted_sound by blast+
qed

text \<open>An instance: a valid point, a point with timestamp 0, a missing element and an object without timestamp.\<close>

theorem falsy_discarded_witness:
  "falsy (Point \<lparr>timestamp = Num 0, count = Some 9\<rparr>)
   \<and> removeDuplicateDates 1748444400000
        (Some ([Point \<lparr>timestamp = Iso 1747530000000, count = Some 3\<rparr>]
               @ Point \<lparr>timestamp = Num 0, count = Some 9\<rparr> # [Missing, Untimed (Some 1)])) False
      = removeDuplicateDates 1748444400000
        (Some ([Point \<lparr>timestamp = Iso 1747530000000, count = Some 3\<rparr>]
               @ [Missing, Untimed (Some 1)])) False
   \<and> removeDuplicateDates 1748444400000
        (Some ([Point \<lparr>timestamp = Iso 1747530000000, count = Some 3\<rparr>]
               @ Point \<lparr>timestamp = Num 0, count = Some 9\<rparr> # [Missing, Untimed (Some 1)])) False
      = [\<lparr>timestamp = Iso 1747530000000, count = Some 3\<rparr>]
   \<and> \<lparr>timestamp = Num 0, count = Some 9\<rparr>
       \<notin> set (removeDuplicateDates 1748444400000
                  (Some [Point \<lparr>timestamp = Iso 1747530000000, count = Some 3\<rparr>,
                         Point \<lparr>timestamp = Num 0, count = Some 9\<rparr>]) False)"
proof -
  have f: "falsy (Point \<lparr>timestamp = Num 0, count = Some 9\<rparr>)" by simp
  note inst = falsy_discarded [of 1748444400000 False "Some 9"
      "Point \<lparr>timestamp = Num 0, count = Some 9\<rparr>"
      "[Point \<lparr>timestamp = Iso 1747530000000, count = Some 3\<rparr>]" "[Missing, Untimed (Some 1)]"]
  have e: "removeDuplicateDates 1748444400000
        (Some ([Point \<lparr>timestamp = Iso 1747530000000, count = Some 3\<rparr>]
               @ Point \<lparr>timestamp = Num 0, count = Some 9\<rparr> # [Missing, Untimed (Some 1)])) False
      = [\<lparr>timestamp = Iso 1747530000000, count = Some 3\<rparr>]"
    by (simp add: rdd_eval)
  have a: "\<lparr>timestamp = Num 0, count = Some 9\<rparr>
       \<notin> set (removeDuplicateDates 1748444400000
                  (Some [Point \<lparr>timestamp = Iso 1747530000000, count = Some 3\<rparr>,
                         Point \<lparr>timestamp = Num 0, count = Some 9\<rparr>]) False)"
    by (simp add: rdd_eval)
  from inst f e a show ?thesis by blast
qed

section \<open>Properties of the day-number adapter\<close>

text \<open>The time value of a day number is the start of that day.\<close>

lemma day_times:
  fixes k :: int
  shows "utcDayNumber (k * 86400000) = k" and "(k * 86400000) mod msPerDay = 0"
    and "isMidnight (k * 86400000)"
proof -
  show "utcDayNumber (k * 86400000) = k" by (simp add: utcDayNumber_def msPerDay_def)
  show "(k * 86400000) mod msPerDay = 0" by (simp add: msPerDay_def)
  have h: "k * 86400000 = (k * 24) * 3600000" by simp
  have m: "k * 86400000 = (k * 1440) * 60000" by simp
  have s: "k * 86400000 = (k * 86400) * 1000" by simp
  have "getUTCHours (k * 86400000) = 0"
    unfolding getUTCHours_def by (subst h) simp
  moreover have "getUTCMinutes (k * 86400000) = 0"
    unfolding getUTCMinutes_def by (subst m) simp
  moreover have "getUTCSeconds (k * 86400000) = 0"
    unfolding getUTCSeconds_def by (subst s) simp
  ultimately show "isMidnight (k * 86400000)" by (simp add: isMidnight_def)
qed

text \<open>
  C5, as amended. For every day number \<open>k\<close> whose date JavaScript can represent
  (at most 100000000 days from the epoch) both conversions give the time value
  \<open>k * 86400000\<close>, which is UTC midnight of day \<open>k\<close>. For day number 20226 this is
  1747526400000.
\<close>

theorem day_number_timestamp:
  assumes "- 100000000 \<le> k" and "k \<le> 100000000"
  shows "fetchRuneRealmStats_timestamp k = Some (k * 86400000)
       \<and> updateRuneRealmChart_timestamp k = Some (Iso (k * 86400000))
       \<and> utcDayNumber (k * 86400000) = k
       \<and> (k * 86400000) mod msPerDay = 0
       \<and> isMidnight (k * 86400000)"
proof -
  from assms have "- maxTimeValue \<le> k * 86400000 \<and> k * 86400000 \<le> maxTimeValue"
    by (simp add: maxTimeValue_def)
  then have n: "newDate (k * 86400000) = Some (k * 86400000)" by (simp add: newDate_def)
  have "k * 24 * 60 * 60 * 1000 = k * 86400000" by simp
  then have u: "updateRuneRealmChart_timestamp k = Some (Iso (k * 86400000))"
    unfolding updateRuneRealmChart_timestamp_def using n by (simp only: option.map)
  have f: "fetchRuneRealmStats_timestamp k = Some (k * 86400000)"
    unfolding fetchRuneRealmStats_timestamp_def Let_def by (rule n)
  from f u day_times [of k] show ?thesis by blast
qed

text \<open>An instance, at day number 20226.\<close>

theorem day_number_timestamp_witness:
  "- 100000000 \<le> (20226::int) \<and> (20226::int) \<le> 100000000
   \<and> fetchRuneRealmStats_timestamp 20226 = Some 1747526400000
   \<and> updateRuneRealmChart_timestamp 20226 = Some (Iso 1747526400000)
   \<and> utcDayNumber 1747526400000 = 20226"
  using day_number_timestamp [of 20226] by simp

text \<open>
  The number 1748390400000 is not what day number 20226 converts to: it is
  \<open>20236 * 86400000\<close>.
\<close>

theorem day_number_timestamp_counterexample:
  "fetchRuneRealmStats_timestamp 20226 \<noteq> Some 1748390400000
   \<and> updateRuneRealmChart_timestamp 20226 \<noteq> Some (Iso 1748390400000)
   \<and> fetchRuneRealmStats_timestamp 20226 = Some 1747526400000
   \<and> fetchRuneRealmStats_timestamp 20236 = Some 1748390400000"
  by (simp add: fetchRuneRealmStats_timestamp_def updateRuneRealmChart_timestamp_def
        newDate_def maxTimeValue_def)

section \<open>Properties of the response cache\<close>

text \<open>
  C8, as amended. A cache read gives nothing exactly when the key has no entry or the age
  of its entry (now minus the stored time) is at least the time to live; data that is
  returned is younger than the time to live. Storing sets the entry of the key whatever
  was there before, and leaves other keys as they were.
\<close>

theorem cache_read_write:
  "(cacheLookup cache key ttl now = None
      \<longleftrightarrow> cache key = None \<or> (\<exists>e. cache key = Some e \<and> ttl \<le> now - entryTimestamp e))
   \<and> (cacheLookup cache key ttl now = Some d
      \<longrightarrow> (\<exists>e. cache key = Some e \<and> entryData e = d \<and> now - entryTimestamp e < ttl))
   \<and> cacheStore cache key d' t key = Some \<lparr>entryData = d', entryTimestamp = t\<rparr>
   \<and> (k \<noteq> key \<longrightarrow> cacheStore cache key d' t k = cache k)
   \<and> cacheLookup (cacheStore cache key d' t) key ttl now = (if now - t < ttl then Some d' else None)"
  by (auto simp: cacheLookup_def cacheStore_def split: option.splits if_splits)

text \<open>An instance: an entry stored at time 1000 with five minutes to live, read one millisecond before and at the end of that time, and overwritten.\<close>

theorem cache_read_write_witness:
  "cacheLookup (cacheStore Map.empty ''network-info'' (1500000::nat) 1000) ''network-info''
      (5 * 60 * 1000) 300999 = Some 1500000
   \<and> cacheLookup (cacheStore Map.empty ''network-info'' (1500000::nat) 1000) ''network-info''
      (5 * 60 * 1000) 301000 = None
   \<and> ''block-history'' \<noteq> ''network-info''
   \<and> cacheStore Map.empty ''network-info'' (1500000::nat) 1000 ''block-history'' = None
   \<and> cacheStore (cacheStore Map.empty ''network-info'' (1500000::nat) 1000)
        ''network-info'' 1500007 2000 ''network-info''
      = Some \<lparr>entryData = 1500007, entryTimestamp = 2000\<rparr>"
proof -
  note a = cache_read_write [of "Map.empty" "''network-info''" "5 * 60 * 1000" 300999 "1500000::nat"
      "1500000::nat" 1000 "''block-history''"]
  note b = cache_read_write [of "Map.empty" "''network-info''" "5 * 60 * 1000" 301000 "1500000::nat"
      "1500000::nat" 1000 "''block-history''"]
  note c = cache_read_write [of "cacheStore Map.empty ''network-info'' (1500000::nat) 1000"
      "''network-info''" "5 * 60 * 1000" 301000 "1500000::nat" "1500007::nat" 2000 "''block-history''"]
  from a b c show ?thesis by simp
qed

text \<open>
  With "exceeds" in place of "is at least" the property fails at the boundary: an entry
  whose age equals the time to live, which does not exceed it, is not returned, and
  \<^verbatim>\<open>fetchNetworkInfo\<close> fetches again and overwrites it.
\<close>

theorem cache_boundary_counterexample:
  "cacheStore Map.empty ''network-info'' (1500000::nat) 1000 ''network-info'' \<noteq> None
   \<and> \<not> (5 * 60 * 1000 < (301000::int) - 1000)
   \<and> cacheLookup (cacheStore Map.empty ''network-info'' (1500000::nat) 1000) ''network-info''
        (5 * 60 * 1000) 301000 = None
   \<and> fetchNetworkInfo (cacheStore Map.empty ''network-info'' (1500000::nat) 1000) 301000
        (Response 200 (Some 1500007)) 301500
      = (Inr 1500007,
         cacheStore (cacheStore Map.empty ''network-info'' (1500000::nat) 1000)
           ''network-info'' 1500007 301500)"
  by (simp add: cacheLookup_def cacheStore_def fetchNetworkInfo_def responseOk_def)

section \<open>Properties of the chunked batch fetch\<close>

text \<open>Chunks, and the events between them.\<close>

lemma chunksOf_Nil: "chunksOf n [] = []"
  by (simp add: chunksOf.simps)

lemma chunksOf_step:
  "0 < n \<Longrightarrow> xs \<noteq> [] \<Longrightarrow> chunksOf n xs = take n xs # chunksOf n (drop n xs)"
  by (subst chunksOf.simps) simp

lemma concat_chunksOf: "0 < n \<Longrightarrow> concat (chunksOf n xs) = xs"
proof (induction n xs rule: chunksOf.induct)
  case (1 n xs)
  show ?case
  proof (cases "xs = []")
    case True
    then show ?thesis by (simp add: chunksOf_Nil)
  next
    case False
    with "1.IH" "1.prems" show ?thesis by (simp add: chunksOf_step)
  qed
qed

lemma ceil5: "0 < (n::nat) \<Longrightarrow> Suc ((n - 5 + 4) div 5) = (n + 4) div 5"
proof (cases "5 \<le> n")
  case True
  then obtain m where n: "n = m + 5" using le_Suc_ex [of 5 n] by (auto simp: add.commute)
  show ?thesis unfolding n by simp
next
  case False
  assume "0 < n"
  with False have "n - 5 + 4 = 4" and "5 * 1 \<le> n + 4" and "n + 4 < 5 * Suc 1" by simp_all
  then show ?thesis using div_nat_eqI [of 5 1 "n + 4"] by simp
qed

lemma length_chunksOf5: "length (chunksOf 5 xs) = (length xs + 4) div 5"
proof (induction xs rule: length_induct)
  case (1 xs)
  show ?case
  proof (cases "xs = []")
    case True
    then show ?thesis by (simp add: chunksOf_Nil)
  next
    case False
    then have lt: "length (drop 5 xs) < length xs" by simp
    from 1 [rule_format, OF lt]
    have IH: "length (chunksOf 5 (drop 5 xs)) = (length (drop 5 xs) + 4) div 5" .
    from False have "chunksOf 5 xs = take 5 xs # chunksOf 5 (drop 5 xs)"
      by (simp add: chunksOf_step)
    with IH have "length (chunksOf 5 xs) = Suc ((length xs - 5 + 4) div 5)" by simp
    also from False have "Suc ((length xs - 5 + 4) div 5) = (length xs + 4) div 5"
      by (intro ceil5) simp
    finally show ?thesis .
  qed
qed

lemma sizes_chunksOf: "0 < n \<Longrightarrow> c \<in> set (chunksOf n xs) \<Longrightarrow> 1 \<le> length c \<and> length c \<le> n"
proof (induction xs rule: length_induct)
  case (1 xs)
  show ?case
  proof (cases "xs = []")
    case True
    with "1.prems" show ?thesis by (simp add: chunksOf_Nil)
  next
    case False
    with "1.prems" have lt: "length (drop n xs) < length xs" by simp
    from False "1.prems" have "c = take n xs \<or> c \<in> set (chunksOf n (drop n xs))"
      by (simp add: chunksOf_step)
    then show ?thesis
    proof
      assume "c = take n xs"
      with False "1.prems"(1) show ?thesis by (cases xs) simp_all
    next
      assume "c \<in> set (chunksOf n (drop n xs))"
      with 1(1) [rule_format, OF lt] "1.prems"(1) show ?thesis by blast
    qed
  qed
qed

lemma chunksOf_empty_iff: "0 < n \<Longrightarrow> chunksOf n xs = [] \<longleftrightarrow> xs = []"
  by (cases "xs = []") (simp_all add: chunksOf_Nil chunksOf_step)

lemma full_chunksOf: "0 < n \<Longrightarrow> c \<in> set (butlast (chunksOf n xs)) \<Longrightarrow> length c = n"
proof (induction xs rule: length_induct)
  case (1 xs)
  show ?case
  proof (cases "xs = []")
    case True
    with "1.prems" show ?thesis by (simp add: chunksOf_Nil)
  next
    case False
    with "1.prems" have lt: "length (drop n xs) < length xs" by simp
    from False "1.prems"(1) have step: "chunksOf n xs = take n xs # chunksOf n (drop n xs)"
      by (simp add: chunksOf_step)
    show ?thesis
    proof (cases "drop n xs = []")
      case True
      with "1.prems"(2) step show ?thesis by (simp add: chunksOf_Nil)
    next
      case d: False
      then have more: "chunksOf n (drop n xs) \<noteq> []"
        using "1.prems"(1) by (simp add: chunksOf_empty_iff)
      with "1.prems"(2) step
      have "c = take n xs \<or> c \<in> set (butlast (chunksOf n (drop n xs)))" by simp
      then show ?thesis
      proof
        assume "c = take n xs"
        with d show ?thesis by simp
      next
        assume "c \<in> set (butlast (chunksOf n (drop n xs)))"
        with 1(1) [rule_format, OF lt] "1.prems"(1) show ?thesis by blast
      qed
    qed
  qed
qed

lemma submitted_delaysBetween: "submitted (delaysBetween cs) = cs"
  by (induction cs) simp_all

lemma delays_delaysBetween: "delays (delaysBetween cs) = replicate (length cs - 1) 100"
proof (induction cs)
  case Nil
  then show ?case by simp
next
  case (Cons c cs)
  then show ?case by (cases cs) simp_all
qed

lemma delaysBetween_empty_iff: "delaysBetween cs = [] \<longleftrightarrow> cs = []"
  by (cases cs) simp_all

lemma last_delaysBetween: "cs \<noteq> [] \<Longrightarrow> last (delaysBetween cs) = Submit (last cs)"
  by (induction cs) (simp_all add: delaysBetween_empty_iff)

lemma requestAll_Nil: "requestAll net name i [] = []"
  by (simp add: requestAll_def)

lemma requestAll_append:
  "requestAll net name i (xs @ ys) = requestAll net name i xs @ requestAll net name (i + length xs) ys"
  by (simp add: requestAll_def enumerate_append_eq)

lemma enumerate_shift:
  "map (\<lambda>(index, p). f (i + index) p) (enumerate j chunk) = map (\<lambda>(n, p). f n p) (enumerate (i + j) chunk)"
  by (induction chunk arbitrary: j) simp_all

lemma chunk_requests:
  "map (\<lambda>(index, p). fetchPeriod name (i + index) p (net (i + index))) (enumerate 0 chunk)
     = requestAll net name i chunk"
  using enumerate_shift [of "\<lambda>n p. fetchPeriod name n p (net n)" i 0 chunk]
  by (simp add: requestAll_def)

text \<open>The loop, from any index: what it adds to the results, the events and the log.\<close>

lemma fetchChunks_done: "\<not> i < length periods \<Longrightarrow> fetchChunks net name periods i run = run"
  by (subst fetchChunks.simps) simp

lemma fetchChunks_step:
  "i < length periods \<Longrightarrow>
   fetchChunks net name periods i run =
     fetchChunks net name periods (i + CHUNK_SIZE)
       \<lparr>results = results run @ map fst (requestAll net name i (slice periods i (i + CHUNK_SIZE))),
        events = events run @ [Submit (slice periods i (i + CHUNK_SIZE))]
           @ (if i + CHUNK_SIZE < length periods then [Delay 100] else []),
        logs = logs run @ concat (map snd (requestAll net name i (slice periods i (i + CHUNK_SIZE))))\<rparr>"
  by (subst fetchChunks.simps) (simp add: Let_def chunk_requests)

lemma fetchChunks_eq:
  "fetchChunks net name periods i run =
     \<lparr>results = results run @ map fst (requestAll net name i (drop i periods)),
      events = events run @ delaysBetween (chunksOf CHUNK_SIZE (drop i periods)),
      logs = logs run @ concat (map snd (requestAll net name i (drop i periods)))\<rparr>"
proof (induction "length periods - i" arbitrary: i run rule: less_induct)
  case less
  show ?case
  proof (cases "i < length periods")
    case False
    then show ?thesis
      by (simp add: fetchChunks_done chunksOf_Nil requestAll_Nil)
  next
    case True
    let ?chunk = "slice periods i (i + CHUNK_SIZE)"
    let ?rest = "drop (i + CHUNK_SIZE) periods"
    have chunk: "?chunk = take CHUNK_SIZE (drop i periods)" by (simp add: slice_def)
    have rest: "?rest = drop CHUNK_SIZE (drop i periods)" by (simp add: add.commute)
    have split: "drop i periods = ?chunk @ ?rest"
      by (simp only: chunk rest append_take_drop_id)
    from True have ne: "drop i periods \<noteq> []" by simp
    have cs: "chunksOf CHUNK_SIZE (drop i periods) = ?chunk # chunksOf CHUNK_SIZE ?rest"
      unfolding chunk rest using ne by (intro chunksOf_step) (simp_all add: CHUNK_SIZE_def)
    have more: "chunksOf CHUNK_SIZE ?rest = [] \<longleftrightarrow> \<not> i + CHUNK_SIZE < length periods"
      by (simp add: chunksOf_empty_iff CHUNK_SIZE_def not_less)
    have ev: "delaysBetween (chunksOf CHUNK_SIZE (drop i periods))
        = [Submit ?chunk] @ (if i + CHUNK_SIZE < length periods then [Delay 100] else [])
          @ delaysBetween (chunksOf CHUNK_SIZE ?rest)"
      unfolding cs using more by (simp add: chunksOf_Nil)
    have req: "requestAll net name i (drop i periods)
        = requestAll net name i ?chunk @ requestAll net name (i + CHUNK_SIZE) ?rest"
    proof (cases "i + CHUNK_SIZE \<le> length periods")
      case True
      then have "length ?chunk = CHUNK_SIZE" by (simp add: slice_def)
      with requestAll_append [of net name i ?chunk ?rest] split show ?thesis by simp
    next
      case False
      then have "?rest = []" by simp
      with split show ?thesis by (simp add: requestAll_Nil)
    qed
    from True have "length periods - (i + CHUNK_SIZE) < length periods - i"
      by (simp add: CHUNK_SIZE_def)
    note IH = less [OF this]
    show ?thesis
      by (subst fetchChunks_step [OF True], subst IH) (simp add: ev req)
  qed
qed

lemma requestAll_length: "length (requestAll net name i ps) = length ps"
  by (simp add: requestAll_def)

lemma requestAll_nth:
  "n < length ps \<Longrightarrow> requestAll net name 0 ps ! n = fetchPeriod name n (ps ! n) (net n)"
  by (simp add: requestAll_def nth_enumerate_eq)

lemma fetchPeriod_failed:
  "failed reply \<Longrightarrow> fst (fetchPeriod name n p reply) = \<lparr>timestamp = endTime p, count = Some 0\<rparr>"
  by (cases reply rule: failed.cases) (simp_all add: fetchPeriod_def)

lemma fetchPeriod_failed_log:
  "failed reply \<Longrightarrow>
     (errorsField reply \<longrightarrow> snd (fetchPeriod name n p reply) = [GraphQLErrorsLog name])
     \<and> (\<not> errorsField reply \<longrightarrow> (\<exists>e. snd (fetchPeriod name n p reply) = [PeriodErrorLog name n e]))"
  by (cases reply rule: failed.cases) (simp_all add: fetchPeriod_def)

lemma fetchPeriod_succeeded:
  "\<not> failed reply \<Longrightarrow>
     fetchPeriod name n p reply = (\<lparr>timestamp = endTime p, count = replyCount reply\<rparr>, [])"
  by (cases reply rule: failed.cases) (simp_all add: fetchPeriod_def)

lemma fetchPeriod_timestamp: "timestamp (fst (fetchPeriod name n p reply)) = endTime p"
  by (cases "failed reply") (simp_all add: fetchPeriod_failed fetchPeriod_succeeded)

lemma chunksOf_12:
  assumes "length xs = 12"
  shows "map length (chunksOf 5 xs) = [5, 5, 2]"
proof -
  from assms have 1: "xs \<noteq> []" by auto
  from assms have 2: "drop 5 xs \<noteq> []" by simp
  from assms have 3: "drop 5 (drop 5 xs) \<noteq> []" by simp
  from assms have 4: "drop 5 (drop 5 (drop 5 xs)) = []" by simp
  have "chunksOf 5 xs = [take 5 xs, take 5 (drop 5 xs), take 5 (drop 5 (drop 5 xs))]"
    by (simp only: chunksOf_step [OF _ 1] chunksOf_step [OF _ 2] chunksOf_step [OF _ 3]
          4 chunksOf_Nil zero_less_numeral)
  with assms show ?thesis by simp
qed

lemma fetchProcessData_miss:
  "cacheLookup cache (processCacheKey processName periods) (10 * 60 * 1000) now = None \<Longrightarrow>
     fetchProcessData cache now net later processName periods =
       \<lparr>returned = results (fetchChunks net processName periods 0 emptyRun),
        cacheAfter = cacheStore cache (processCacheKey processName periods)
                       (results (fetchChunks net processName periods 0 emptyRun)) later,
        observed = fetchChunks net processName periods 0 emptyRun\<rparr>"
  by (simp add: fetchProcessData_def Let_def emptyRun_def)

lemma fetchChunks_all:
  "fetchChunks net name periods 0 emptyRun =
     \<lparr>results = map fst (requestAll net name 0 periods),
      events = delaysBetween (chunksOf 5 periods),
      logs = concat (map snd (requestAll net name 0 periods))\<rparr>"
  by (simp add: fetchChunks_eq emptyRun_def CHUNK_SIZE_def)

text \<open>
  C6. The loop of \<^verbatim>\<open>fetchProcessData\<close>, which runs whenever the cache holds no fresh entry,
  submits the periods in consecutive chunks of 5, in order, the last chunk possibly
  shorter: \<open>(n + 4) div 5\<close> chunks for \<open>n\<close> periods. It waits 100 ms between two chunks and
  not after the last one. For 12 periods the chunks have sizes 5, 5, 2 and there are
  exactly two delays.
\<close>

theorem chunked_fetch_schedule:
  "events (fetchChunks net processName periods 0 emptyRun) = delaysBetween (chunksOf 5 periods)
   \<and> submitted (events (fetchChunks net processName periods 0 emptyRun)) = chunksOf 5 periods
   \<and> delays (events (fetchChunks net processName periods 0 emptyRun))
        = replicate (length (chunksOf 5 periods) - 1) 100
   \<and> concat (chunksOf 5 periods) = periods
   \<and> length (chunksOf 5 periods) = (length periods + 4) div 5
   \<and> (\<forall>c \<in> set (chunksOf 5 periods). 1 \<le> length c \<and> length c \<le> 5)
   \<and> (\<forall>c \<in> set (butlast (chunksOf 5 periods)). length c = 5)
   \<and> (periods \<noteq> [] \<longrightarrow>
        last (events (fetchChunks net processName periods 0 emptyRun))
          = Submit (last (chunksOf 5 periods)))
   \<and> (length periods = 12 \<longrightarrow>
        map length (chunksOf 5 periods) = [5, 5, 2]
        \<and> delays (events (fetchChunks net processName periods 0 emptyRun)) = [100, 100])
   \<and> (cacheLookup cache (processCacheKey processName periods) (10 * 60 * 1000) now = None \<longrightarrow>
        observed (fetchProcessData cache now net later processName periods)
          = fetchChunks net processName periods 0 emptyRun)"
proof -
  let ?evs = "events (fetchChunks net processName periods 0 emptyRun)"
  have ev: "?evs = delaysBetween (chunksOf 5 periods)" by (simp add: fetchChunks_all)
  have sub: "submitted ?evs = chunksOf 5 periods" by (simp only: ev submitted_delaysBetween)
  have del: "delays ?evs = replicate (length (chunksOf 5 periods) - 1) 100"
    by (simp only: ev delays_delaysBetween)
  have cat: "concat (chunksOf 5 periods) = periods" by (simp add: concat_chunksOf)
  have len: "length (chunksOf 5 periods) = (length periods + 4) div 5" by (rule length_chunksOf5)
  have sz: "\<forall>c \<in> set (chunksOf 5 periods). 1 \<le> length c \<and> length c \<le> 5"
    using sizes_chunksOf [of 5 _ periods] by simp
  have full: "\<forall>c \<in> set (butlast (chunksOf 5 periods)). length c = 5"
    using full_chunksOf [of 5 _ periods] by simp
  have lst: "periods \<noteq> [] \<longrightarrow> last ?evs = Submit (last (chunksOf 5 periods))"
    unfolding ev by (simp add: last_delaysBetween chunksOf_empty_iff)
  have twelve: "length periods = 12 \<longrightarrow>
        map length (chunksOf 5 periods) = [5, 5, 2] \<and> delays ?evs = [100, 100]"
  proof
    assume a: "length periods = 12"
    from chunksOf_12 [OF a] have m: "map length (chunksOf 5 periods) = [5, 5, 2]" .
    then have "length (map length (chunksOf 5 periods)) = 3" by simp
    then have "length (chunksOf 5 periods) = 3" by simp
    with del have "delays ?evs = [100, 100]" by (simp add: numeral_2_eq_2)
    with m show "map length (chunksOf 5 periods) = [5, 5, 2] \<and> delays ?evs = [100, 100]" by simp
  qed
  have miss: "cacheLookup cache (processCacheKey processName periods) (10 * 60 * 1000) now = None \<longrightarrow>
        observed (fetchProcessData cache now net later processName periods)
          = fetchChunks net processName periods 0 emptyRun"
    by (simp add: fetchProcessData_miss)
  from ev sub del cat len sz full lst twelve miss show ?thesis by blast
qed

text \<open>An instance with 12 periods and an empty cache.\<close>

theorem chunked_fetch_schedule_witness:
  "replicate 12 \<lparr>startHeight = 1700000, endHeight = 1700720, endTime = Iso 1748390400000\<rparr> \<noteq> []
   \<and> length (replicate 12 \<lparr>startHeight = 1700000, endHeight = 1700720, endTime = Iso 1748390400000\<rparr>) = 12
   \<and> cacheLookup Map.empty
        (processCacheKey ''wARTransfer''
           (replicate 12 \<lparr>startHeight = 1700000, endHeight = 1700720, endTime = Iso 1748390400000\<rparr>))
        (10 * 60 * 1000) 0 = None
   \<and> map length (chunksOf 5
        (replicate 12 \<lparr>startHeight = 1700000, endHeight = 1700720, endTime = Iso 1748390400000\<rparr>))
      = [5, 5, 2]
   \<and> delays (events (fetchChunks (\<lambda>n. Http (Response 200 (Some (WithCount 3))))
        ''wARTransfer''
        (replicate 12 \<lparr>startHeight = 1700000, endHeight = 1700720, endTime = Iso 1748390400000\<rparr>)
        0 emptyRun)) = [100, 100]
   \<and> observed (fetchProcessData Map.empty 0 (\<lambda>n. Http (Response 200 (Some (WithCount 3)))) 900
        ''wARTransfer''
        (replicate 12 \<lparr>startHeight = 1700000, endHeight = 1700720, endTime = Iso 1748390400000\<rparr>))
      = fetchChunks (\<lambda>n. Http (Response 200 (Some (WithCount 3)))) ''wARTransfer''
          (replicate 12 \<lparr>startHeight = 1700000, endHeight = 1700720, endTime = Iso 1748390400000\<rparr>)
          0 emptyRun"
proof -
  let ?ps = "replicate 12 \<lparr>startHeight = 1700000, endHeight = 1700720, endTime = Iso 1748390400000\<rparr>"
  have ne: "?ps \<noteq> []" and len: "length ?ps = 12" by simp_all
  have miss: "cacheLookup Map.empty (processCacheKey ''wARTransfer'' ?ps) (10 * 60 * 1000) 0 = None"
    by (simp add: cacheLookup_def)
  note inst = chunked_fetch_schedule [of "\<lambda>n. Http (Response 200 (Some (WithCount 3)))"
      "''wARTransfer''" ?ps Map.empty 0 900]
  note twelve = inst [THEN conjunct2, THEN conjunct2, THEN conjunct2, THEN conjunct2,
      THEN conjunct2, THEN conjunct2, THEN conjunct2, THEN conjunct2, THEN conjunct1, THEN mp, OF len]
  note onMiss = inst [THEN conjunct2, THEN conjunct2, THEN conjunct2, THEN conjunct2,
      THEN conjunct2, THEN conjunct2, THEN conjunct2, THEN conjunct2, THEN conjunct2, THEN mp, OF miss]
  show ?thesis
    by (intro conjI) (rule ne len miss twelve [THEN conjunct1] twelve [THEN conjunct2] onMiss)+
qed

text \<open>
  C7. No failure of a sub-request ends the batch. The loop returns one point for each
  period, in the order of the periods, each with the end time of its period. The point of
  a period whose sub-request failed (the query could not be built, the fetch was rejected,
  the response was not 2xx, the body did not parse, it had an \<^verbatim>\<open>errors\<close> field, or
  it had no \<^verbatim>\<open>data.transactions\<close>) has count 0; the point of any other period has the
  count of the reply. The log holds, up to order, exactly one line for each failed period
  and none for the others: the GraphQL line when the failure is an \<^verbatim>\<open>errors\<close> field,
  otherwise the error line with the number of the period. On a cache miss
  \<^verbatim>\<open>fetchProcessData\<close> returns these points and stores them.
\<close>

theorem period_failures_isolated:
  "length (results (fetchChunks net processName periods 0 emptyRun)) = length periods
   \<and> (\<forall>n < length periods.
          timestamp (results (fetchChunks net processName periods 0 emptyRun) ! n)
            = endTime (periods ! n))
   \<and> (\<forall>n < length periods. failed (net n) \<longrightarrow>
          results (fetchChunks net processName periods 0 emptyRun) ! n
            = \<lparr>timestamp = endTime (periods ! n), count = Some 0\<rparr>)
   \<and> (\<forall>n < length periods. \<not> failed (net n) \<longrightarrow>
          results (fetchChunks net processName periods 0 emptyRun) ! n
            = \<lparr>timestamp = endTime (periods ! n), count = replyCount (net n)\<rparr>)
   \<and> (\<exists>segs. length segs = length periods
          \<and> mset (logs (fetchChunks net processName periods 0 emptyRun)) = mset (concat segs)
          \<and> (\<forall>n < length periods.
                 (failed (net n) \<and> errorsField (net n) \<longrightarrow>
                    segs ! n = [GraphQLErrorsLog processName])
               \<and> (failed (net n) \<and> \<not> errorsField (net n) \<longrightarrow>
                    (\<exists>e. segs ! n = [PeriodErrorLog processName n e]))
               \<and> (\<not> failed (net n) \<longrightarrow> segs ! n = [])))
   \<and> (cacheLookup cache (processCacheKey processName periods) (10 * 60 * 1000) now = None \<longrightarrow>
        returned (fetchProcessData cache now net later processName periods)
          = results (fetchChunks net processName periods 0 emptyRun)
        \<and> cacheAfter (fetchProcessData cache now net later processName periods)
            (processCacheKey processName periods)
          = Some \<lparr>entryData = results (fetchChunks net processName periods 0 emptyRun),
                  entryTimestamp = later\<rparr>)"
proof -
  let ?r = "fetchChunks net processName periods 0 emptyRun"
  let ?reqs = "requestAll net processName 0 periods"
  have res: "results ?r = map fst ?reqs" and lg: "logs ?r = concat (map snd ?reqs)"
    by (simp_all add: fetchChunks_all)
  have nth: "?reqs ! n = fetchPeriod processName n (periods ! n) (net n)"
    if "n < length periods" for n
    using that by (rule requestAll_nth)
  have 1: "length (results ?r) = length periods"
    by (simp add: res requestAll_length)
  have 2: "\<forall>n < length periods. timestamp (results ?r ! n) = endTime (periods ! n)"
    by (simp add: res requestAll_length nth fetchPeriod_timestamp)
  have 3: "\<forall>n < length periods. failed (net n) \<longrightarrow>
      results ?r ! n = \<lparr>timestamp = endTime (periods ! n), count = Some 0\<rparr>"
    by (simp add: res requestAll_length nth fetchPeriod_failed)
  have 4: "\<forall>n < length periods. \<not> failed (net n) \<longrightarrow>
      results ?r ! n = \<lparr>timestamp = endTime (periods ! n), count = replyCount (net n)\<rparr>"
    by (simp add: res requestAll_length nth fetchPeriod_succeeded)
  have 5: "\<exists>segs. length segs = length periods
          \<and> mset (logs ?r) = mset (concat segs)
          \<and> (\<forall>n < length periods.
                 (failed (net n) \<and> errorsField (net n) \<longrightarrow>
                    segs ! n = [GraphQLErrorsLog processName])
               \<and> (failed (net n) \<and> \<not> errorsField (net n) \<longrightarrow>
                    (\<exists>e. segs ! n = [PeriodErrorLog processName n e]))
               \<and> (\<not> failed (net n) \<longrightarrow> segs ! n = []))"
  proof -
    have seg: "map snd ?reqs ! n = snd (fetchPeriod processName n (periods ! n) (net n))"
      if "n < length periods" for n
      using that by (simp add: requestAll_length nth)
    have a: "length (map snd ?reqs) = length periods" by (simp add: requestAll_length)
    have b: "mset (logs ?r) = mset (concat (map snd ?reqs))" by (simp only: lg)
    have c: "\<forall>n < length periods.
                 (failed (net n) \<and> errorsField (net n) \<longrightarrow>
                    map snd ?reqs ! n = [GraphQLErrorsLog processName])
               \<and> (failed (net n) \<and> \<not> errorsField (net n) \<longrightarrow>
                    (\<exists>e. map snd ?reqs ! n = [PeriodErrorLog processName n e]))
               \<and> (\<not> failed (net n) \<longrightarrow> map snd ?reqs ! n = [])"
    proof (intro allI impI conjI)
      fix n assume n: "n < length periods"
      show "map snd ?reqs ! n = [GraphQLErrorsLog processName]"
        if "failed (net n) \<and> errorsField (net n)"
        using that fetchPeriod_failed_log [of "net n" processName n "periods ! n"] seg [OF n]
        by simp
      show "\<exists>e. map snd ?reqs ! n = [PeriodErrorLog processName n e]"
        if "failed (net n) \<and> \<not> errorsField (net n)"
        using that fetchPeriod_failed_log [of "net n" processName n "periods ! n"] seg [OF n]
        by simp
      show "map snd ?reqs ! n = []" if "\<not> failed (net n)"
        using that seg [OF n] by (simp add: fetchPeriod_succeeded)
    qed
    from a b c show ?thesis by (intro exI [where x = "map snd ?reqs"] conjI)
  qed
  have 6: "cacheLookup cache (processCacheKey processName periods) (10 * 60 * 1000) now = None \<longrightarrow>
        returned (fetchProcessData cache now net later processName periods) = results ?r
        \<and> cacheAfter (fetchProcessData cache now net later processName periods)
            (processCacheKey processName periods)
          = Some \<lparr>entryData = results ?r, entryTimestamp = later\<rparr>"
    by (simp add: fetchProcessData_miss cacheStore_def)
  from 1 2 3 4 5 6 show ?thesis by (intro conjI)
qed

text \<open>
  An instance with four periods: the first reply carries the count 7, the second has
  status 500, the third has an \<^verbatim>\<open>errors\<close> field, the fourth has
  \<^verbatim>\<open>data.transactions\<close> without a count.
\<close>

theorem period_failures_isolated_witness:
  "(1::nat) < length [\<lparr>startHeight = 10, endHeight = 20, endTime = Iso 1748304000000\<rparr>,
                      \<lparr>startHeight = 20, endHeight = 30, endTime = Iso 1748390400000\<rparr>,
                      \<lparr>startHeight = 30, endHeight = 40, endTime = Iso 1748476800000\<rparr>,
                      \<lparr>startHeight = 40, endHeight = 50, endTime = Iso 1748563200000\<rparr>]
   \<and> failed (Http (Response 500 None))
   \<and> results (fetchChunks
        (\<lambda>n. if n = 0 then Http (Response 200 (Some (WithCount 7)))
             else if n = 1 then Http (Response 500 None)
             else if n = 2 then Http (Response 200 (Some WithErrors))
             else Http (Response 200 (Some WithoutCount)))
        ''wARTransfer''
        [\<lparr>startHeight = 10, endHeight = 20, endTime = Iso 1748304000000\<rparr>,
         \<lparr>startHeight = 20, endHeight = 30, endTime = Iso 1748390400000\<rparr>,
         \<lparr>startHeight = 30, endHeight = 40, endTime = Iso 1748476800000\<rparr>,
         \<lparr>startHeight = 40, endHeight = 50, endTime = Iso 1748563200000\<rparr>] 0 emptyRun) ! 1
      = \<lparr>timestamp = Iso 1748390400000, count = Some 0\<rparr>
   \<and> fetchChunks
        (\<lambda>n. if n = 0 then Http (Response 200 (Some (WithCount 7)))
             else if n = 1 then Http (Response 500 None)
             else if n = 2 then Http (Response 200 (Some WithErrors))
             else Http (Response 200 (Some WithoutCount)))
        ''wARTransfer''
        [\<lparr>startHeight = 10, endHeight = 20, endTime = Iso 1748304000000\<rparr>,
         \<lparr>startHeight = 20, endHeight = 30, endTime = Iso 1748390400000\<rparr>,
         \<lparr>startHeight = 30, endHeight = 40, endTime = Iso 1748476800000\<rparr>,
         \<lparr>startHeight = 40, endHeight = 50, endTime = Iso 1748563200000\<rparr>] 0 emptyRun
      = \<lparr>results = [\<lparr>timestamp = Iso 1748304000000, count = Some 7\<rparr>,
                     \<lparr>timestamp = Iso 1748390400000, count = Some 0\<rparr>,
                     \<lparr>timestamp = Iso 1748476800000, count = Some 0\<rparr>,
                     \<lparr>timestamp = Iso 1748563200000, count = None\<rparr>],
         events = [Submit [\<lparr>startHeight = 10, endHeight = 20, endTime = Iso 1748304000000\<rparr>,
                           \<lparr>startHeight = 20, endHeight = 30, endTime = Iso 1748390400000\<rparr>,
                           \<lparr>startHeight = 30, endHeight = 40, endTime = Iso 1748476800000\<rparr>,
                           \<lparr>startHeight = 40, endHeight = 50, endTime = Iso 1748563200000\<rparr>]],
         logs = [PeriodErrorLog ''wARTransfer'' 1 (NetworkError 500),
                 GraphQLErrorsLog ''wARTransfer'']\<rparr>"
proof -
  let ?ps = "[\<lparr>startHeight = 10, endHeight = 20, endTime = Iso 1748304000000\<rparr>,
              \<lparr>startHeight = 20, endHeight = 30, endTime = Iso 1748390400000\<rparr>,
              \<lparr>startHeight = 30, endHeight = 40, endTime = Iso 1748476800000\<rparr>,
              \<lparr>startHeight = 40, endHeight = 50, endTime = Iso 1748563200000\<rparr>]"
  let ?net = "\<lambda>n::nat. if n = 0 then Http (Response 200 (Some (WithCount 7)))
             else if n = 1 then Http (Response 500 None)
             else if n = 2 then Http (Response 200 (Some WithErrors))
             else Http (Response 200 (Some WithoutCount))"
  have n: "(1::nat) < length ?ps" by simp
  have f: "failed (?net 1)" by simp
  note inst = period_failures_isolated [of ?net "''wARTransfer''" ?ps Map.empty 0 900]
  note third = inst [THEN conjunct2, THEN conjunct2, THEN conjunct1, rule_format, OF n f]
  then have 1: "results (fetchChunks ?net ''wARTransfer'' ?ps 0 emptyRun) ! 1
      = \<lparr>timestamp = Iso 1748390400000, count = Some 0\<rparr>"
    by simp
  have 2: "fetchChunks ?net ''wARTransfer'' ?ps 0 emptyRun
      = \<lparr>results = [\<lparr>timestamp = Iso 1748304000000, count = Some 7\<rparr>,
                     \<lparr>timestamp = Iso 1748390400000, count = Some 0\<rparr>,
                     \<lparr>timestamp = Iso 1748476800000, count = Some 0\<rparr>,
                     \<lparr>timestamp = Iso 1748563200000, count = None\<rparr>],
         events = [Submit ?ps],
         logs = [PeriodErrorLog ''wARTransfer'' 1 (NetworkError 500),
                 GraphQLErrorsLog ''wARTransfer'']\<rparr>"
    by (simp add: fetchChunks_all requestAll_def fetchPeriod_def responseOk_def
          chunksOf_step chunksOf_Nil)
  have f': "failed (Http (Response 500 None))" by simp
  from n f' 1 2 show ?thesis by (intro conjI)
qed

section \<open>Properties of the series alignment\<close>

text \<open>The timeline, and the loop over it.\<close>

lemma setAdd_fold_set: "set (foldl setAdd acc xs) = set acc \<union> set xs"
  by (induction xs arbitrary: acc) (auto simp: setAdd_def)

lemma setAdd_fold_distinct: "distinct acc \<Longrightarrow> distinct (foldl setAdd acc xs)"
  by (induction xs arbitrary: acc) (simp_all add: setAdd_def)

lemma set_newSet: "set (newSet xs) = set xs"
  by (simp add: newSet_def setAdd_fold_set)

lemma distinct_newSet: "distinct (newSet xs)"
  by (simp add: newSet_def setAdd_fold_distinct)

lemma uniqueTimestamps_props:
  "set (uniqueTimestamps a b) = timestamp ` (set a \<union> set b)"
  "distinct (uniqueTimestamps a b)"
  "sorted (map timeValue (uniqueTimestamps a b))"
  by (simp_all add: uniqueTimestamps_def Let_def set_newSet distinct_newSet image_Un)

lemma align_foldl:
  "foldl (alignStep fmt a b) acc us =
     \<lparr>labels = labels acc @ map (\<lambda>ts. fmt (timeValue ts)) us,
      primaryValues = primaryValues acc @ map (valueAt a) us,
      secondaryValues = secondaryValues acc @ map (valueAt b) us,
      alignedPrimaryData = alignedPrimaryData acc @ map (pointAt a) us,
      alignedSecondaryData = alignedSecondaryData acc @ map (pointAt b) us\<rparr>"
proof (induction us arbitrary: acc)
  case Nil
  then show ?case by simp
next
  case (Cons u us)
  show ?case
    by (simp add: Cons.IH) (simp add: alignStep_def Let_def valueAt_def pointAt_def)
qed

lemma aligned_eq:
  "updateStandardCombinedChart fmt a b =
     \<lparr>labels = map (\<lambda>ts. fmt (timeValue ts)) (uniqueTimestamps a b),
      primaryValues = map (valueAt a) (uniqueTimestamps a b),
      secondaryValues = map (valueAt b) (uniqueTimestamps a b),
      alignedPrimaryData = map (pointAt a) (uniqueTimestamps a b),
      alignedSecondaryData = map (pointAt b) (uniqueTimestamps a b)\<rparr>"
  by (simp add: updateStandardCombinedChart_def align_foldl)

lemma valueAt_absent: "\<forall>p \<in> set series. timestamp p \<noteq> ts \<Longrightarrow> valueAt series ts = None"
proof -
  assume "\<forall>p \<in> set series. timestamp p \<noteq> ts"
  then have "find (\<lambda>d. timestamp d = ts) series = None" by (simp add: find_None_iff)
  then show ?thesis by (simp add: valueAt_def)
qed

lemma valueAt_present:
  "find (\<lambda>d. timestamp d = ts) series = Some p \<Longrightarrow>
     valueAt series ts = count p \<and> p \<in> set series \<and> timestamp p = ts"
proof -
  assume f: "find (\<lambda>d. timestamp d = ts) series = Some p"
  then have "p \<in> set series \<and> timestamp p = ts" by (auto simp: find_Some_iff)
  with f show ?thesis by (simp add: valueAt_def)
qed

lemma two_points:
  assumes "t1 \<noteq> t2"
  shows "timeValue t1 \<le> timeValue t2 \<Longrightarrow>
           uniqueTimestamps [\<lparr>timestamp = t1, count = Some 5\<rparr>] [\<lparr>timestamp = t2, count = Some 3\<rparr>]
             = [t1, t2]"
    and "timeValue t2 < timeValue t1 \<Longrightarrow>
           uniqueTimestamps [\<lparr>timestamp = t1, count = Some 5\<rparr>] [\<lparr>timestamp = t2, count = Some 3\<rparr>]
             = [t2, t1]"
  using assms by (simp_all add: uniqueTimestamps_def newSet_def setAdd_def)

text \<open>
  C9, as amended. The timeline of the aligned chart holds every timestamp of either
  series exactly once, sorted by time, and the labels are its formatted dates. Each value
  array has the length of the labels; its entry at a timestamp is the count of the first
  point of the series with exactly that timestamp, and \<^verbatim>\<open>null\<close> when the series has no
  such point. For \<open>A = [{t1, 5}]\<close> and \<open>B = [{t2, 3}]\<close> with different timestamps and
  \<open>t1\<close> not later than \<open>t2\<close>, the timeline is \<open>[t1, t2]\<close>, the values of A are
  \<open>[5, null]\<close> and those of B are \<open>[null, 3]\<close>; with \<open>t2\<close> earlier than \<open>t1\<close> all three are
  reversed.
\<close>

theorem series_alignment:
  "labels (updateStandardCombinedChart formatDate a b)
      = map (\<lambda>ts. formatDate (timeValue ts)) (uniqueTimestamps a b)
   \<and> set (uniqueTimestamps a b) = timestamp ` (set a \<union> set b)
   \<and> distinct (uniqueTimestamps a b)
   \<and> sorted (map timeValue (uniqueTimestamps a b))
   \<and> primaryValues (updateStandardCombinedChart formatDate a b)
      = map (valueAt a) (uniqueTimestamps a b)
   \<and> secondaryValues (updateStandardCombinedChart formatDate a b)
      = map (valueAt b) (uniqueTimestamps a b)
   \<and> length (primaryValues (updateStandardCombinedChart formatDate a b))
      = length (labels (updateStandardCombinedChart formatDate a b))
   \<and> length (secondaryValues (updateStandardCombinedChart formatDate a b))
      = length (labels (updateStandardCombinedChart formatDate a b))
   \<and> ((\<forall>p \<in> set series. timestamp p \<noteq> ts) \<longrightarrow> valueAt series ts = None)
   \<and> (find (\<lambda>d. timestamp d = ts) series = Some p \<longrightarrow>
        valueAt series ts = count p \<and> p \<in> set series \<and> timestamp p = ts)
   \<and> (t1 \<noteq> t2 \<and> timeValue t1 \<le> timeValue t2 \<longrightarrow>
        updateStandardCombinedChart formatDate
          [\<lparr>timestamp = t1, count = Some 5\<rparr>] [\<lparr>timestamp = t2, count = Some 3\<rparr>]
        = \<lparr>labels = [formatDate (timeValue t1), formatDate (timeValue t2)],
           primaryValues = [Some 5, None], secondaryValues = [None, Some 3],
           alignedPrimaryData = [\<lparr>timestamp = t1, count = Some 5\<rparr>, \<lparr>timestamp = t2, count = None\<rparr>],
           alignedSecondaryData = [\<lparr>timestamp = t1, count = None\<rparr>, \<lparr>timestamp = t2, count = Some 3\<rparr>]\<rparr>)
   \<and> (timeValue t2 < timeValue t1 \<longrightarrow>
        updateStandardCombinedChart formatDate
          [\<lparr>timestamp = t1, count = Some 5\<rparr>] [\<lparr>timestamp = t2, count = Some 3\<rparr>]
        = \<lparr>labels = [formatDate (timeValue t2), formatDate (timeValue t1)],
           primaryValues = [None, Some 5], secondaryValues = [Some 3, None],
           alignedPrimaryData = [\<lparr>timestamp = t2, count = None\<rparr>, \<lparr>timestamp = t1, count = Some 5\<rparr>],
           alignedSecondaryData = [\<lparr>timestamp = t2, count = Some 3\<rparr>, \<lparr>timestamp = t1, count = None\<rparr>]\<rparr>)"
proof -
  have 1: "t1 \<noteq> t2 \<and> timeValue t1 \<le> timeValue t2 \<longrightarrow>
        updateStandardCombinedChart formatDate
          [\<lparr>timestamp = t1, count = Some 5\<rparr>] [\<lparr>timestamp = t2, count = Some 3\<rparr>]
        = \<lparr>labels = [formatDate (timeValue t1), formatDate (timeValue t2)],
           primaryValues = [Some 5, None], secondaryValues = [None, Some 3],
           alignedPrimaryData = [\<lparr>timestamp = t1, count = Some 5\<rparr>, \<lparr>timestamp = t2, count = None\<rparr>],
           alignedSecondaryData = [\<lparr>timestamp = t1, count = None\<rparr>, \<lparr>timestamp = t2, count = Some 3\<rparr>]\<rparr>"
    by (auto simp: aligned_eq two_points valueAt_def pointAt_def)
  have 2: "timeValue t2 < timeValue t1 \<longrightarrow>
        updateStandardCombinedChart formatDate
          [\<lparr>timestamp = t1, count = Some 5\<rparr>] [\<lparr>timestamp = t2, count = Some 3\<rparr>]
        = \<lparr>labels = [formatDate (timeValue t2), formatDate (timeValue t1)],
           primaryValues = [None, Some 5], secondaryValues = [Some 3, None],
           alignedPrimaryData = [\<lparr>timestamp = t2, count = None\<rparr>, \<lparr>timestamp = t1, count = Some 5\<rparr>],
           alignedSecondaryData = [\<lparr>timestamp = t2, count = Some 3\<rparr>, \<lparr>timestamp = t1, count = None\<rparr>]\<rparr>"
  proof
    assume lt: "timeValue t2 < timeValue t1"
    then have "t1 \<noteq> t2" by auto
    from two_points(2) [OF this lt] this show "updateStandardCombinedChart formatDate
          [\<lparr>timestamp = t1, count = Some 5\<rparr>] [\<lparr>timestamp = t2, count = Some 3\<rparr>]
        = \<lparr>labels = [formatDate (timeValue t2), formatDate (timeValue t1)],
           primaryValues = [None, Some 5], secondaryValues = [Some 3, None],
           alignedPrimaryData = [\<lparr>timestamp = t2, count = None\<rparr>, \<lparr>timestamp = t1, count = Some 5\<rparr>],
           alignedSecondaryData = [\<lparr>timestamp = t2, count = Some 3\<rparr>, \<lparr>timestamp = t1, count = None\<rparr>]\<rparr>"
      by (auto simp: aligned_eq valueAt_def pointAt_def)
  qed
  have 3: "(\<forall>p \<in> set series. timestamp p \<noteq> ts) \<longrightarrow> valueAt series ts = None"
    using valueAt_absent by blast
  have 4: "find (\<lambda>d. timestamp d = ts) series = Some p \<longrightarrow>
        valueAt series ts = count p \<and> p \<in> set series \<and> timestamp p = ts"
    using valueAt_present by blast
  have 5: "labels (updateStandardCombinedChart formatDate a b)
      = map (\<lambda>ts. formatDate (timeValue ts)) (uniqueTimestamps a b)"
    and 6: "primaryValues (updateStandardCombinedChart formatDate a b)
      = map (valueAt a) (uniqueTimestamps a b)"
    and 7: "secondaryValues (updateStandardCombinedChart formatDate a b)
      = map (valueAt b) (uniqueTimestamps a b)"
    by (simp_all add: aligned_eq)
  have 8: "length (primaryValues (updateStandardCombinedChart formatDate a b))
      = length (labels (updateStandardCombinedChart formatDate a b))"
    and 9: "length (secondaryValues (updateStandardCombinedChart formatDate a b))
      = length (labels (updateStandardCombinedChart formatDate a b))"
    by (simp_all add: aligned_eq)
  from 1 2 3 4 5 6 7 8 9 uniqueTimestamps_props [of a b] show ?thesis by blast
qed

text \<open>An instance with two ISO timestamps one day apart.\<close>

theorem series_alignment_witness:
  "Iso 1748304000000 \<noteq> Iso 1748390400000
   \<and> timeValue (Iso 1748304000000) \<le> timeValue (Iso 1748390400000)
   \<and> updateStandardCombinedChart (\<lambda>t. t)
        [\<lparr>timestamp = Iso 1748304000000, count = Some 5\<rparr>]
        [\<lparr>timestamp = Iso 1748390400000, count = Some 3\<rparr>]
      = \<lparr>labels = [1748304000000, 1748390400000],
         primaryValues = [Some 5, None], secondaryValues = [None, Some 3],
         alignedPrimaryData = [\<lparr>timestamp = Iso 1748304000000, count = Some 5\<rparr>,
                               \<lparr>timestamp = Iso 1748390400000, count = None\<rparr>],
         alignedSecondaryData = [\<lparr>timestamp = Iso 1748304000000, count = None\<rparr>,
                                 \<lparr>timestamp = Iso 1748390400000, count = Some 3\<rparr>]\<rparr>
   \<and> valueAt [\<lparr>timestamp = Iso 1748304000000, count = Some 5\<rparr>] (Iso 1748390400000) = None"
  using series_alignment [of "\<lambda>t. t" "[]" "[]"
      "[\<lparr>timestamp = Iso 1748304000000, count = Some 5\<rparr>]" "Iso 1748390400000"
      "\<lparr>timestamp = Iso 1748304000000, count = Some 5\<rparr>"
      "Iso 1748304000000" "Iso 1748390400000"]
  by simp

text \<open>
  Different timestamps alone do not give the example: with the timestamp of A later than
  that of B the values of A are \<open>[null, 5]\<close>, not \<open>[5, null]\<close>.
\<close>

theorem series_alignment_counterexample:
  "Num 2 \<noteq> Num 1
   \<and> updateStandardCombinedChart id
        [\<lparr>timestamp = Num 2, count = Some 5\<rparr>] [\<lparr>timestamp = Num 1, count = Some 3\<rparr>]
      = \<lparr>labels = [1, 2], primaryValues = [None, Some 5], secondaryValues = [Some 3, None],
         alignedPrimaryData = [\<lparr>timestamp = Num 1, count = None\<rparr>, \<lparr>timestamp = Num 2, count = Some 5\<rparr>],
         alignedSecondaryData = [\<lparr>timestamp = Num 1, count = Some 3\<rparr>, \<lparr>timestamp = Num 2, count = None\<rparr>]\<rparr>
   \<and> primaryValues (updateStandardCombinedChart id
        [\<lparr>timestamp = Num 2, count = Some 5\<rparr>] [\<lparr>timestamp = Num 1, count = Some 3\<rparr>])
      \<noteq> [Some 5, None]"
  by (simp add: updateStandardCombinedChart_def uniqueTimestamps_def newSet_def setAdd_def
        alignStep_def Let_def)

end
